theory Spec2Isabelle
  imports Main "HOL-Library.Monad_Syntax"
begin

section \<open>Dual numbers and the derivator\<close>

text \<open>
  Modelled from the spec: the dual-number type (\<^verbatim>\<open>ceres::Jet<T, N>\<close>) is not part of the
  source file. A dual number is a scalar part \<open>a\<close> and a vector \<open>v\<close> of derivative
  components. The scalar type is a type parameter; only the operations a function needs
  are asked of it, and no algebraic law is assumed.
\<close>

record 'a jet =
  a :: 'a
  v :: "'a list"

text \<open>
  The two function-local statics of \<^verbatim>\<open>getDerivator<Size>\<close>. Every \<open>Size\<close> is an
  instantiation of its own, with statics of its own.
\<close>

record 'a derivator_statics =
  result :: "'a jet list"
  first_call :: bool

text \<open>\<^verbatim>\<open>result.setZero()\<close> on a \<open>Size\<close>-vector of jets with \<open>Size\<close> components each.\<close>

definition setZero :: "nat \<Rightarrow> ('a::zero) jet list" where
  "setZero Size = replicate Size \<lparr>a = 0, v = replicate Size 0\<rparr>"

text \<open>\<^verbatim>\<open>for (unsigned i = 0; i < Size; ++i) result[i].v[i] = 1;\<close>\<close>

definition set_ones :: "nat \<Rightarrow> ('a::one) jet list \<Rightarrow> 'a jet list" where
  "set_ones Size res =
     fold (\<lambda>i r. r[i := (r ! i)\<lparr>v := (v (r ! i))[i := 1]\<rparr>]) [0..<Size] res"

text \<open>
  \<^verbatim>\<open>getDerivator<Size>()\<close>: the statics go in, the returned vector and the statics come
  out.
\<close>

definition getDerivator ::
  "nat \<Rightarrow> ('a::{zero,one}) derivator_statics \<Rightarrow> 'a jet list \<times> 'a derivator_statics" where
  "getDerivator Size st =
     (let st' = (if first_call st
                 then \<lparr>result = set_ones Size (setZero Size), first_call = False\<rparr>
                 else st)
      in (result st', st'))"

text \<open>The statics before the first call; the content of \<open>result\<close> is then never read.\<close>

definition initial_statics :: "'a jet list \<Rightarrow> 'a derivator_statics" where
  "initial_statics r0 = \<lparr>result = r0, first_call = True\<rparr>"

text \<open>The statics after \<open>k\<close> calls.\<close>

definition after_calls :: "nat \<Rightarrow> nat \<Rightarrow> ('a::{zero,one}) jet list \<Rightarrow> 'a derivator_statics" where
  "after_calls Size k r0 = ((\<lambda>st. snd (getDerivator Size st)) ^^ k) (initial_statics r0)"

text \<open>The \<open>i\<close>-th standard basis vector of dimension \<open>n\<close>, and the seed built from them.\<close>

definition unit_vector :: "nat \<Rightarrow> nat \<Rightarrow> ('a::{zero,one}) list" where
  "unit_vector n i = map (\<lambda>j. if j = i then 1 else 0) [0..<n]"

definition basis_seed :: "nat \<Rightarrow> ('a::{zero,one}) jet list" where
  "basis_seed n = map (\<lambda>i. \<lparr>a = 0, v = unit_vector n i\<rparr>) [0..<n]"

text \<open>
  What a call of \<^verbatim>\<open>getDerivator<Size>()\<close> returns. The functions below use this value
  and do not thread the statics: \<open>getDerivator_after_calls\<close> shows that every call, the
  first and the later ones, returns the same vector.
\<close>

definition derivator :: "nat \<Rightarrow> ('a::{zero,one}) jet list" where
  "derivator Size = fst (getDerivator Size (initial_statics []))"

text \<open>
  Modelled from the spec: the sum of a scalar and a dual number (\<^verbatim>\<open>ceres/jet.h\<close>, not in
  the source) adds the scalar to the scalar part and keeps the derivative components.
  \<^verbatim>\<open>Er1 + getDerivator<DOF>()\<close> is Eigen's coefficient-wise sum of two vectors of the same
  size.
\<close>

definition scalar_plus_jet :: "('a::plus) \<Rightarrow> 'a jet \<Rightarrow> 'a jet" where
  "scalar_plus_jet s f = \<lparr>a = a f + s, v = v f\<rparr>"

definition vector_plus_jets :: "('a::plus) list \<Rightarrow> 'a jet list \<Rightarrow> 'a jet list option" where
  "vector_plus_jets xs fs =
     (if length xs = length fs then Some (map2 scalar_plus_jet xs fs) else None)"

section \<open>Matrices\<close>

text \<open>
  \<^verbatim>\<open>Eigen::Matrix<double, R, C>\<close> is \<open>Fixed R C\<close>, \<^verbatim>\<open>Eigen::Matrix<double, -1, -1>\<close> is
  \<open>Dynamic\<close>. The macro \<^verbatim>\<open>USE_EIGEN_DYNAMIC_THRESHHOLD\<close> is not defined in the source
  file: it is the parameter \<open>thr\<close> of everything that depends on it.
\<close>

datatype matrix_type = Fixed nat nat | Dynamic

text \<open>
  The product \<^verbatim>\<open>N * M\<close> is a product of two \<^verbatim>\<open>int\<close>s: \<open>int32\<close> is what 32 bits in two's
  complement keep of it.
\<close>

definition int32 :: "int \<Rightarrow> int" where
  "int32 k = (k + 2147483648) mod 4294967296 - 2147483648"

definition dynamicMatrix :: "int \<Rightarrow> nat \<Rightarrow> nat \<Rightarrow> bool" where
  "dynamicMatrix thr N M = (int32 (int N * int M) > thr)"

definition AutoMatrixType :: "int \<Rightarrow> nat \<Rightarrow> nat \<Rightarrow> matrix_type" where
  "AutoMatrixType thr N M = (if dynamicMatrix thr N M then Dynamic else Fixed N N)"

text \<open>A matrix value: its type, its run-time dimensions and its coefficients by rows.\<close>

record 'a matrix =
  storage :: matrix_type
  nrows :: nat
  ncols :: nat
  coeffs :: "'a list list"

text \<open>
  The constructor \<^verbatim>\<open>jacobi(rows, cols)\<close>. A fixed-size type takes only its own
  dimensions. The coefficients are uninitialised in the source; they stand as \<open>0\<close> here
  and are never read.
\<close>

definition construct :: "matrix_type \<Rightarrow> nat \<Rightarrow> nat \<Rightarrow> ('a::zero) matrix option" where
  "construct T r c =
     (case T of
        Dynamic \<Rightarrow> Some \<lparr>storage = T, nrows = r, ncols = c, coeffs = replicate r (replicate c 0)\<rparr>
      | Fixed R C \<Rightarrow>
          if r = R \<and> c = C
          then Some \<lparr>storage = T, nrows = r, ncols = c, coeffs = replicate r (replicate c 0)\<rparr>
          else None)"

text \<open>\<^verbatim>\<open>jacobi.row(j) = xs\<close>: the row is in range and the sizes agree, or nothing is assigned.\<close>

definition set_row :: "'a matrix \<Rightarrow> nat \<Rightarrow> 'a list \<Rightarrow> 'a matrix option" where
  "set_row J j xs =
     (if j < nrows J \<and> length xs = ncols J then Some (J\<lparr>coeffs := (coeffs J)[j := xs]\<rparr>)
      else None)"

text \<open>\<^verbatim>\<open>D.Identity(n, m)\<close> in the matrix type \<open>T\<close>.\<close>

definition Identity :: "matrix_type \<Rightarrow> nat \<Rightarrow> nat \<Rightarrow> ('a::{zero,one}) matrix" where
  "Identity T r c =
     \<lparr>storage = T, nrows = r, ncols = c,
      coeffs = map (\<lambda>i. map (\<lambda>j. if i = j then 1 else 0) [0..<c]) [0..<r]\<rparr>"

text \<open>
  \<^verbatim>\<open>D.block<p, q>(i, j) = B\<close>: the block lies inside \<open>D\<close> and \<open>B\<close> is \<open>p \<times> q\<close>, or
  nothing is assigned (Eigen's range and size checks).
\<close>

definition set_block ::
  "'a matrix \<Rightarrow> nat \<Rightarrow> nat \<Rightarrow> nat \<Rightarrow> nat \<Rightarrow> 'a matrix \<Rightarrow> 'a matrix option" where
  "set_block D i j p q B =
     (if i + p \<le> nrows D \<and> j + q \<le> ncols D \<and> nrows B = p \<and> ncols B = q
      then Some (D\<lparr>coeffs :=
             map (\<lambda>r. map (\<lambda>c. if i \<le> r \<and> r < i + p \<and> j \<le> c \<and> c < j + q
                                then coeffs B ! (r - i) ! (c - j)
                                else coeffs D ! r ! c) [0..<ncols D]) [0..<nrows D]\<rparr>)
      else None)"

text \<open>\<^verbatim>\<open>Er1.segment<n>(start)\<close>: \<open>n\<close> coefficients from \<open>start\<close> on, inside the vector.\<close>

definition segment :: "'a list \<Rightarrow> nat \<Rightarrow> nat \<Rightarrow> 'a list option" where
  "segment xs start n = (if start + n \<le> length xs then Some (take n (drop start xs)) else None)"

section \<open>The Jacobian extractor\<close>

text \<open>
  The parameter type \<^verbatim>\<open>Eigen::Matrix<ceres::Jet<ScalarType, _RDOF>, _LDOF, 1>\<close>: a vector of
  \<open>LDOF\<close> dual numbers with \<open>RDOF\<close> derivative components each.
\<close>

definition jets_typed :: "nat \<Rightarrow> nat \<Rightarrow> 'a jet list \<Rightarrow> bool" where
  "jets_typed LDOF RDOF res = (length res = LDOF \<and> list_all (\<lambda>f. length (v f) = RDOF) res)"

text \<open>\<^verbatim>\<open>for (size_t j = 0; j < _LDOF; ++j) jacobi.row(j) = result(j).v;\<close>\<close>

primrec extractJacobi_rows :: "'a jet list \<Rightarrow> nat list \<Rightarrow> 'a matrix \<Rightarrow> 'a matrix option" where
  "extractJacobi_rows res [] jacobi = Some jacobi"
| "extractJacobi_rows res (j # js) jacobi =
     (if j < length res
      then do { jacobi' \<leftarrow> set_row jacobi j (v (res ! j)); extractJacobi_rows res js jacobi' }
      else None)"

text \<open>
  \<^verbatim>\<open>extractJacobi<ScalarType, _LDOF, _RDOF>(result)\<close>. The template arguments are
  parameters; an argument that is not of the parameter type is no input of the function.
\<close>

definition extractJacobi :: "int \<Rightarrow> nat \<Rightarrow> nat \<Rightarrow> ('a::zero) jet list \<Rightarrow> 'a matrix option" where
  "extractJacobi thr LDOF RDOF res =
     (if jets_typed LDOF RDOF res
      then do {
        jacobi \<leftarrow> construct (AutoMatrixType thr LDOF RDOF) LDOF RDOF;
        extractJacobi_rows res [0..<LDOF] jacobi
      }
      else None)"

section \<open>Manifolds and the reference transform\<close>

text \<open>
  Modelled from the spec: the concrete manifold types and the composite's
  \<^verbatim>\<open>forEachManifoldWithOther\<close> are not in the source file. A type that is not a
  \<^verbatim>\<open>CompoundManifold\<close> is given by its \<open>DOF\<close> and its two operators: \<open>+\<close> takes a point
  and a vector of dual numbers to a dual-valued point, \<open>-\<close> takes a dual-valued point
  and a point to a vector of dual numbers. A \<^verbatim>\<open>CompoundManifold\<close> is given by its
  declared \<open>DOF\<close> and the types of the sub-components that \<^verbatim>\<open>forEachManifoldWithOther\<close>
  visits, in the order it visits them. A value of a composite holds the values of these
  sub-components.
\<close>

datatype ('m, 'j, 'a) manifold_type =
    Manifold nat "'m \<Rightarrow> 'a jet list \<Rightarrow> 'j" "'j \<Rightarrow> 'm \<Rightarrow> 'a jet list"
  | CompoundManifold nat "('m, 'j, 'a) manifold_type list"

datatype 'm manifold_value = Single 'm | Parts "'m manifold_value list"

fun DOFOf :: "('m, 'j, 'a) manifold_type \<Rightarrow> nat" where
  "DOFOf (Manifold n boxplus boxminus) = n"
| "DOFOf (CompoundManifold n Ts) = n"

text \<open>
  The overload with \<open>Er1\<close>. \<open>forEachManifoldWithOther3\<close> is the iteration with the lambda
  \<^verbatim>\<open>calcManifoldJacobian\<close> as its body; the lambda's captured \<open>D\<close> and \<open>dof\<close> are passed
  along. Arguments that have not the type \<open>ManifoldType\<close> are no inputs.
\<close>

fun transformReferenceJacobian3 ::
      "int \<Rightarrow> ('m, 'j, 'a::{zero,one,plus}) manifold_type \<Rightarrow> 'm manifold_value \<Rightarrow>
       'm manifold_value \<Rightarrow> 'a list \<Rightarrow> 'a matrix option"
  and forEachManifoldWithOther3 ::
      "int \<Rightarrow> ('m, 'j, 'a) manifold_type list \<Rightarrow> 'm manifold_value list \<Rightarrow>
       'm manifold_value list \<Rightarrow> 'a list \<Rightarrow> 'a matrix \<Rightarrow> nat \<Rightarrow> 'a matrix option"
where
  "transformReferenceJacobian3 thr (Manifold n boxplus boxminus) (Single ref1) (Single ref2) Er1 =
     do {
       d \<leftarrow> vector_plus_jets Er1 (derivator n);
       extractJacobi thr n n (boxminus (boxplus ref1 d) ref2)
     }"
| "transformReferenceJacobian3 thr (CompoundManifold n Ts) (Parts xs) (Parts ys) Er1 =
     forEachManifoldWithOther3 thr Ts xs ys Er1 (Identity (AutoMatrixType thr n n) n n) 0"
| "transformReferenceJacobian3 thr T x y Er1 = None"
| "forEachManifoldWithOther3 thr [] [] [] Er1 D dof = Some D"
| "forEachManifoldWithOther3 thr (T # Ts) (x # xs) (y # ys) Er1 D dof =
     do {
       cur_Er1 \<leftarrow> segment Er1 dof (DOFOf T);
       J \<leftarrow> transformReferenceJacobian3 thr T x y cur_Er1;
       D' \<leftarrow> set_block D dof dof (DOFOf T) (DOFOf T) J;
       forEachManifoldWithOther3 thr Ts xs ys Er1 D' (dof + DOFOf T)
     }"
| "forEachManifoldWithOther3 thr Ts xs ys Er1 D dof = None"

text \<open>The overload without \<open>Er1\<close>.\<close>

fun transformReferenceJacobian2 ::
      "int \<Rightarrow> ('m, 'j, 'a::{zero,one}) manifold_type \<Rightarrow> 'm manifold_value \<Rightarrow>
       'm manifold_value \<Rightarrow> 'a matrix option"
  and forEachManifoldWithOther2 ::
      "int \<Rightarrow> ('m, 'j, 'a) manifold_type list \<Rightarrow> 'm manifold_value list \<Rightarrow>
       'm manifold_value list \<Rightarrow> 'a matrix \<Rightarrow> nat \<Rightarrow> 'a matrix option"
where
  "transformReferenceJacobian2 thr (Manifold n boxplus boxminus) (Single ref1) (Single ref2) =
     extractJacobi thr n n (boxminus (boxplus ref1 (derivator n)) ref2)"
| "transformReferenceJacobian2 thr (CompoundManifold n Ts) (Parts xs) (Parts ys) =
     forEachManifoldWithOther2 thr Ts xs ys (Identity (AutoMatrixType thr n n) n n) 0"
| "transformReferenceJacobian2 thr T x y = None"
| "forEachManifoldWithOther2 thr [] [] [] D dof = Some D"
| "forEachManifoldWithOther2 thr (T # Ts) (x # xs) (y # ys) D dof =
     do {
       J \<leftarrow> transformReferenceJacobian2 thr T x y;
       D' \<leftarrow> set_block D dof dof (DOFOf T) (DOFOf T) J;
       forEachManifoldWithOther2 thr Ts xs ys D' (dof + DOFOf T)
     }"
| "forEachManifoldWithOther2 thr Ts xs ys D dof = None"

section \<open>The scenario's scalar manifold\<close>

text \<open>
  Modelled from the spec: the end-to-end scenario's one-dimensional scalar manifold with
  \<open>+(x, d) = x + d\<close> and \<open>-(x, y) = x - y\<close>. Its operators work on dual numbers: \<open>d\<close> is
  a vector of one dual number, and the difference of a dual number and a scalar subtracts
  the scalar from the scalar part and keeps the derivative components.
\<close>

definition jet_minus_scalar :: "('a::minus) jet \<Rightarrow> 'a \<Rightarrow> 'a jet" where
  "jet_minus_scalar f s = \<lparr>a = a f - s, v = v f\<rparr>"

definition scalar_manifold :: "('a, 'a jet, 'a::{plus,minus}) manifold_type" where
  "scalar_manifold =
     Manifold 1 (\<lambda>x d. scalar_plus_jet x (hd d)) (\<lambda>xd y. [jet_minus_scalar xd y])"

section \<open>Notions used in the statements\<close>

text \<open>The coefficient list has the dimensions the matrix says.\<close>

definition well_shaped :: "'a matrix \<Rightarrow> bool" where
  "well_shaped M =
     (length (coeffs M) = nrows M \<and> list_all (\<lambda>row. length row = ncols M) (coeffs M))"

text \<open>Reading \<^verbatim>\<open>D.block<p, q>(i, j)\<close>, for a block inside \<open>D\<close>.\<close>

definition block :: "'a matrix \<Rightarrow> nat \<Rightarrow> nat \<Rightarrow> nat \<Rightarrow> nat \<Rightarrow> 'a list list" where
  "block D i j p q = map (\<lambda>r. map (\<lambda>c. coeffs D ! (i + r) ! (j + c)) [0..<q]) [0..<p]"

text \<open>
  The block assignments of the iteration alone, given the sub-results: used to state and
  prove what the iteration writes, not part of the source.
\<close>

primrec assemble :: "'a matrix \<Rightarrow> nat \<Rightarrow> 'a matrix list \<Rightarrow> 'a matrix option" where
  "assemble D dof [] = Some D"
| "assemble D dof (J # Js) =
     do { D' \<leftarrow> set_block D dof dof (nrows J) (nrows J) J; assemble D' (dof + nrows J) Js }"

text \<open>Where block \<open>k\<close> starts when blocks of the sizes \<open>ds\<close> follow each other.\<close>

definition starts :: "nat list \<Rightarrow> nat \<Rightarrow> nat" where
  "starts ds k = sum_list (take k ds)"

text \<open>A value is of a manifold type: the C++ type of \<open>ref1\<close> and \<open>ref2\<close>.\<close>

fun has_type :: "'m manifold_value \<Rightarrow> ('m, 'j, 'a) manifold_type \<Rightarrow> bool" where
  "has_type (Single r) (Manifold n boxplus boxminus) = True"
| "has_type (Parts xs) (CompoundManifold n Ts) = list_all2 has_type xs Ts"
| "has_type x T = False"

text \<open>
  The precondition on composite types: the \<open>DOF\<close>s of the visited sub-components fit
  into the declared \<open>DOF\<close> (what is left belongs to sub-components that are not
  visited), in every nested composite as well.
\<close>

fun DOF_consistent :: "('m, 'j, 'a) manifold_type \<Rightarrow> bool" where
  "DOF_consistent (Manifold n boxplus boxminus) = True"
| "DOF_consistent (CompoundManifold n Ts) =
     (sum_list (map DOFOf Ts) \<le> n \<and> list_all DOF_consistent Ts)"

text \<open>
  The C++ signature of the operators: on a vector of \<open>DOF\<close> dual numbers with \<open>DOF\<close>
  derivative components each, \<open>ref1 + d - ref2\<close> is such a vector again.
\<close>

fun operators_typed :: "('m, 'j, 'a) manifold_type \<Rightarrow> bool" where
  "operators_typed (Manifold n boxplus boxminus) =
     (\<forall>ref1 ref2 d. jets_typed n n d \<longrightarrow> jets_typed n n (boxminus (boxplus ref1 d) ref2))"
| "operators_typed (CompoundManifold n Ts) = list_all operators_typed Ts"

text \<open>The tangent offset of the \<open>i\<close>-th visited sub-component: the \<open>DOF\<close>s before it.\<close>

definition offset :: "('m, 'j, 'a) manifold_type list \<Rightarrow> nat \<Rightarrow> nat" where
  "offset Ts i = sum_list (map DOFOf (take i Ts))"

text \<open>
  The round-trip law of a manifold, to first order at \<open>ref\<close>: in every non-composite
  sub-component, adding the derivator to the point and taking the difference to the same
  point gives a vector of \<open>DOF\<close> dual numbers with the derivative components of the
  derivator. It holds whenever \<open>-\<close> undoes \<open>+\<close>, that is \<open>(ref + d) - ref = d\<close>.
\<close>

fun round_trip :: "('m, 'j, 'a::{zero,one}) manifold_type \<Rightarrow> 'm manifold_value \<Rightarrow> bool" where
  "round_trip (Manifold n boxplus boxminus) (Single ref) =
     (jets_typed n n (boxminus (boxplus ref (derivator n)) ref) \<and>
      map v (boxminus (boxplus ref (derivator n)) ref) = map v (derivator n))"
| "round_trip (CompoundManifold n Ts) (Parts xs) = list_all2 round_trip Ts xs"
| "round_trip T x = False"

text \<open>
  A one-dimensional type that is tagged as a manifold and is none: its operators
  \<open>+(x, d) = x + 2 d\<close> and \<open>-(x, y) = x - y\<close> do not fit each other.
\<close>

definition doubling_manifold :: "('a, 'a jet, 'a::{plus,minus}) manifold_type" where
  "doubling_manifold =
     Manifold 1
       (\<lambda>x d. scalar_plus_jet x \<lparr>a = a (hd d) + a (hd d), v = map (\<lambda>t. t + t) (v (hd d))\<rparr>)
       (\<lambda>xd y. [jet_minus_scalar xd y])"

section \<open>The covariance regularizer\<close>

text \<open>
  Modelled from the spec: Eigen's LDLT decomposition is not in the source. It is a
  parameter \<open>ldlt\<close> that gives, for a matrix, what \<^verbatim>\<open>matrix.ldlt()\<close> keeps: the status
  \<^verbatim>\<open>info()\<close> and the sign of the pivots. As Eigen documents it, \<^verbatim>\<open>isPositive()\<close> is true
  of a positive semidefinite matrix: when the sign is \<open>PositiveSemiDef\<close> (no negative
  pivot, one positive) or \<open>ZeroSign\<close> (all pivots zero).
\<close>

datatype ComputationInfo = Success | NumericalIssue | NoConvergence | InvalidInput

datatype SignMatrix = PositiveSemiDef | NegativeSemiDef | ZeroSign | Indefinite

record LDLT =
  info :: ComputationInfo
  m_sign :: SignMatrix

definition isPositive :: "LDLT \<Rightarrow> bool" where
  "isPositive l = (m_sign l = PositiveSemiDef \<or> m_sign l = ZeroSign)"

text \<open>\<^verbatim>\<open>_ldlt.info() == Eigen::Success && _ldlt.isPositive()\<close>\<close>

definition isPositiveDefinite :: "('mat \<Rightarrow> LDLT) \<Rightarrow> 'mat \<Rightarrow> bool" where
  "isPositiveDefinite ldlt matrix = (let l = ldlt matrix in info l = Success \<and> isPositive l)"

text \<open>
  Modelled from the spec: Eigen's \<^verbatim>\<open>SelfAdjointEigenSolver\<close> and its matrix arithmetic are
  not in the source. The parameter \<open>solver\<close> gives, for a matrix, the solver object: its
  \<^verbatim>\<open>eigenvalues()\<close> and, for a vector \<open>sV\<close>, the matrix
  \<^verbatim>\<open>eigenvectors() * sV.asDiagonal() * eigenvectors().inverse()\<close>. The type \<open>'mat\<close> stands
  for the symmetric matrices, the ones the solver is made for.
\<close>

record ('mat, 's) SelfAdjointEigenSolver =
  eigenvalues :: "'s list"
  reconstruct :: "'s list \<Rightarrow> 'mat"

text \<open>
  \<^verbatim>\<open>for (int i = 0; i < sV.rows(); i++) if (sV(i) < eps) { sV(i) = eps; positive = false; }\<close>
\<close>

definition clamp_loop :: "('s::ord) \<Rightarrow> 's list \<Rightarrow> 's list \<times> bool" where
  "clamp_loop eps sV0 =
     fold (\<lambda>i (sV, positive). if sV ! i < eps then (sV[i := eps], False) else (sV, positive))
       [0..<length sV0] (sV0, True)"

text \<open>
  \<^verbatim>\<open>assurePositiveDefinite(matrix, eps)\<close>: the matrix after the call. The \<^verbatim>\<open>assert\<close> after
  the reconstruction is compiled out when \<^verbatim>\<open>NDEBUG\<close> is defined; otherwise a failed
  assertion aborts and there is no matrix after the call.
\<close>

definition assurePositiveDefinite ::
  "bool \<Rightarrow> ('mat \<Rightarrow> ('mat, 's::ord) SelfAdjointEigenSolver) \<Rightarrow> ('mat \<Rightarrow> LDLT) \<Rightarrow>
   'mat \<Rightarrow> 's \<Rightarrow> 'mat option" where
  "assurePositiveDefinite NDEBUG solver ldlt matrix eps =
     (let svd = solver matrix;
          (sV, positive) = clamp_loop eps (eigenvalues svd)
      in if positive then Some matrix
         else (let matrix' = reconstruct svd sV
               in if NDEBUG \<or> isPositiveDefinite ldlt matrix' then Some matrix' else None))"

text \<open>
  The contract of the eigen-solver, in exact arithmetic: the matrix rebuilt from the
  eigenvectors of a matrix and a vector of values has these values as its eigenvalues.
\<close>

definition solver_contract :: "('mat \<Rightarrow> ('mat, 's) SelfAdjointEigenSolver) \<Rightarrow> bool" where
  "solver_contract solver =
     (\<forall>matrix sV. length sV = length (eigenvalues (solver matrix)) \<longrightarrow>
        set (eigenvalues (solver (reconstruct (solver matrix) sV))) = set sV)"


text \<open>
  Modelled from the spec: the two decompositions of a matrix with one coefficient \<open>m\<close>,
  as Eigen computes them. Its eigenvalue is \<open>m\<close> and its eigenvector is \<open>1\<close>; the LDLT
  decomposition of a matrix of size one always succeeds and takes the sign from the
  coefficient.
\<close>

definition solver_1x1 :: "'s \<Rightarrow> ('s, 's) SelfAdjointEigenSolver" where
  "solver_1x1 m = \<lparr>eigenvalues = [m], reconstruct = (\<lambda>sV. hd sV)\<rparr>"

definition ldlt_1x1 :: "('s::{zero,ord}) \<Rightarrow> LDLT" where
  "ldlt_1x1 m =
     \<lparr>info = Success,
      m_sign = (if 0 < m then PositiveSemiDef else if m < 0 then NegativeSemiDef else ZeroSign)\<rparr>"

section \<open>Properties\<close>

subsection \<open>The derivator is the basis seed\<close>

lemma set_ones_prefix:
  "k \<le> n \<Longrightarrow>
   fold (\<lambda>i r. r[i := (r ! i)\<lparr>v := (v (r ! i))[i := 1]\<rparr>]) [0..<k] (setZero n) =
   map (\<lambda>i. \<lparr>a = 0, v = map (\<lambda>j. if j = i \<and> i < k then 1 else (0::'a::{zero,one})) [0..<n]\<rparr>) [0..<n]"
proof (induction k)
  case 0
  show ?case
    by (simp add: setZero_def map_replicate_const [symmetric] del: replicate.simps)
       (simp add: map_replicate_const)
next
  case (Suc k)
  then have k: "k < n" and IH: "fold (\<lambda>i r. r[i := (r ! i)\<lparr>v := (v (r ! i))[i := 1]\<rparr>]) [0..<k] (setZero n) =
   map (\<lambda>i. \<lparr>a = 0, v = map (\<lambda>j. if j = i \<and> i < k then 1 else (0::'a)) [0..<n]\<rparr>) [0..<n]"
    by simp_all
  show ?case
    unfolding upt_Suc_append [OF le0] fold_append comp_def IH
    using k by (auto intro!: nth_equalityI simp: nth_list_update less_Suc_eq)
qed

lemma set_ones_setZero: "set_ones n (setZero n) = basis_seed n"
  by (simp add: set_ones_def set_ones_prefix basis_seed_def unit_vector_def cong: map_cong)

lemma getDerivator_initial:
  "getDerivator n (initial_statics r0) = (basis_seed n, \<lparr>result = basis_seed n, first_call = False\<rparr>)"
  by (simp add: getDerivator_def initial_statics_def set_ones_setZero)

lemma getDerivator_later:
  "getDerivator n \<lparr>result = basis_seed n, first_call = False\<rparr> =
     (basis_seed n, \<lparr>result = basis_seed n, first_call = False\<rparr>)"
  by (simp add: getDerivator_def)

lemma after_calls_Suc:
  "after_calls n (Suc k) r0 = \<lparr>result = basis_seed n, first_call = False\<rparr>"
  by (induction k) (simp_all add: after_calls_def getDerivator_initial getDerivator_later)

lemma getDerivator_after_calls: "fst (getDerivator n (after_calls n k r0)) = basis_seed n"
proof (cases k)
  case 0
  then show ?thesis by (simp add: after_calls_def getDerivator_initial)
next
  case (Suc k')
  then show ?thesis by (simp add: after_calls_Suc getDerivator_later)
qed

subsection \<open>Helper facts\<close>

lemma derivator_basis_seed: "derivator n = basis_seed n"
  by (simp add: derivator_def getDerivator_initial)

lemma jets_typed_basis_seed: "jets_typed n n (basis_seed n :: ('a::{zero,one}) jet list)"
  by (simp add: jets_typed_def basis_seed_def unit_vector_def list_all_iff)

lemma extractJacobi_rows_upt:
  assumes "length res = L" "nrows J = L" "length (coeffs J) = L"
      and "list_all (\<lambda>f. length (v f) = ncols J) res" "k \<le> L"
  shows "extractJacobi_rows res [k..<L] J =
           Some (J\<lparr>coeffs := take k (coeffs J) @ map v (drop k res)\<rparr>)"
  using assms
proof (induction "L - k" arbitrary: k J)
  case 0
  then show ?case by simp
next
  case (Suc d)
  then have k: "k < L" by simp
  have len: "length (v (res ! k)) = ncols J"
    using Suc.prems k by (simp add: list_all_length)
  let ?J = "J\<lparr>coeffs := (coeffs J)[k := v (res ! k)]\<rparr>"
  have step: "extractJacobi_rows res [Suc k..<L] ?J =
      Some (?J\<lparr>coeffs := take (Suc k) (coeffs ?J) @ map v (drop (Suc k) res)\<rparr>)"
    using Suc.hyps Suc.prems k by (intro Suc.hyps(1)) simp_all
  have "take (Suc k) ((coeffs J)[k := v (res ! k)]) @ map v (drop (Suc k) res) =
        take k (coeffs J) @ map v (drop k res)"
    using k Suc.prems
    by (simp add: take_Suc_conv_app_nth Cons_nth_drop_Suc [symmetric])
  then show ?case
    using k Suc.prems len step by (simp add: upt_conv_Cons set_row_def)
qed

lemma extractJacobi_Some:
  assumes "jets_typed L R res" "dynamicMatrix thr L R \<or> L = R"
  shows "extractJacobi thr L R res =
           Some \<lparr>storage = AutoMatrixType thr L R, nrows = L, ncols = R, coeffs = map v res\<rparr>"
proof -
  have c: "construct (AutoMatrixType thr L R) L R =
      Some \<lparr>storage = AutoMatrixType thr L R, nrows = L, ncols = R,
            coeffs = replicate L (replicate R (0::'a))\<rparr>"
    using assms(2) by (auto simp: construct_def AutoMatrixType_def)
  show ?thesis
    using assms(1) extractJacobi_rows_upt [of res L "\<lparr>storage = AutoMatrixType thr L R, nrows = L, ncols = R,
            coeffs = replicate L (replicate R (0::'a))\<rparr>" 0]
    by (simp add: extractJacobi_def c jets_typed_def)
qed

lemma extractJacobi_None:
  assumes "\<not> dynamicMatrix thr L R" "L \<noteq> R"
  shows "extractJacobi thr L R res = None"
  using assms by (simp add: extractJacobi_def construct_def AutoMatrixType_def)


lemma starts_0 [simp]: "starts ds 0 = 0"
  by (simp add: starts_def)

lemma starts_Cons_Suc [simp]: "starts (d # ds) (Suc k) = d + starts ds k"
  by (simp add: starts_def)

lemma set_block_Some:
  assumes "i + p \<le> nrows D" "j + q \<le> ncols D" "nrows B = p" "ncols B = q"
  shows "\<exists>D'. set_block D i j p q B = Some D' \<and> nrows D' = nrows D \<and> ncols D' = ncols D
           \<and> storage D' = storage D \<and> well_shaped D'
           \<and> (\<forall>r<nrows D. \<forall>c<ncols D. coeffs D' ! r ! c =
                 (if i \<le> r \<and> r < i + p \<and> j \<le> c \<and> c < j + q
                  then coeffs B ! (r - i) ! (c - j) else coeffs D ! r ! c))"
  using assms by (simp add: set_block_def well_shaped_def list_all_iff)

lemma all_less_Suc_shift: "(\<forall>k<Suc n. P k) \<longleftrightarrow> P 0 \<and> (\<forall>k<n. P (Suc k))"
  by (metis less_Suc_eq_0_disj Suc_less_eq zero_less_Suc)

lemma assemble_entries:
  assumes "dof + sum_list (map nrows Js) \<le> nrows D" "ncols D = nrows D"
      and "list_all (\<lambda>J. ncols J = nrows J) Js"
  shows "\<exists>D'. assemble D dof Js = Some D' \<and> nrows D' = nrows D \<and> ncols D' = nrows D
           \<and> storage D' = storage D \<and> (well_shaped D \<longrightarrow> well_shaped D')
           \<and> (\<forall>k<length Js. \<forall>r<nrows (Js ! k). \<forall>c<nrows (Js ! k).
                 coeffs D' ! (dof + starts (map nrows Js) k + r) ! (dof + starts (map nrows Js) k + c) =
                 coeffs (Js ! k) ! r ! c)
           \<and> (\<forall>r<nrows D. \<forall>c<nrows D.
                 (\<forall>k<length Js.
                    \<not> (dof + starts (map nrows Js) k \<le> r \<and> r < dof + starts (map nrows Js) k + nrows (Js ! k) \<and>
                       dof + starts (map nrows Js) k \<le> c \<and> c < dof + starts (map nrows Js) k + nrows (Js ! k))) \<longrightarrow>
                 coeffs D' ! r ! c = coeffs D ! r ! c)"
  using assms
proof (induction Js arbitrary: D dof)
  case Nil
  then show ?case by simp
next
  case (Cons J Js)
  let ?d = "nrows J"
  from Cons.prems have fit: "dof + ?d \<le> nrows D" "dof + ?d \<le> ncols D" "ncols J = ?d"
    by simp_all
  from set_block_Some [OF fit(1) fit(2) refl fit(3)]
  obtain D1 where D1: "set_block D dof dof ?d ?d J = Some D1" "nrows D1 = nrows D"
      "ncols D1 = ncols D" "storage D1 = storage D" "well_shaped D1"
      and D1e: "\<And>r c. r < nrows D \<Longrightarrow> c < nrows D \<Longrightarrow> coeffs D1 ! r ! c =
                 (if dof \<le> r \<and> r < dof + ?d \<and> dof \<le> c \<and> c < dof + ?d
                  then coeffs J ! (r - dof) ! (c - dof) else coeffs D ! r ! c)"
    using Cons.prems(2) by auto
  have "(dof + ?d) + sum_list (map nrows Js) \<le> nrows D1" "ncols D1 = nrows D1"
       "list_all (\<lambda>J. ncols J = nrows J) Js"
    using Cons.prems D1 by simp_all
  from Cons.IH [OF this]
  obtain D' where D': "assemble D1 (dof + ?d) Js = Some D'" "nrows D' = nrows D1"
      "ncols D' = nrows D1" "storage D' = storage D1" "well_shaped D'"
      and inb: "\<And>k r c. k < length Js \<Longrightarrow> r < nrows (Js ! k) \<Longrightarrow> c < nrows (Js ! k) \<Longrightarrow>
                 coeffs D' ! (dof + ?d + starts (map nrows Js) k + r) ! (dof + ?d + starts (map nrows Js) k + c) =
                 coeffs (Js ! k) ! r ! c"
      and outb: "\<And>r c. r < nrows D \<Longrightarrow> c < nrows D \<Longrightarrow>
                 (\<forall>k<length Js.
                    \<not> (dof + ?d + starts (map nrows Js) k \<le> r \<and> r < dof + ?d + starts (map nrows Js) k + nrows (Js ! k) \<and>
                       dof + ?d + starts (map nrows Js) k \<le> c \<and> c < dof + ?d + starts (map nrows Js) k + nrows (Js ! k))) \<Longrightarrow>
                 coeffs D' ! r ! c = coeffs D1 ! r ! c"
    using D1 by auto
  have first: "coeffs D' ! (dof + r) ! (dof + c) = coeffs J ! r ! c" if "r < ?d" "c < ?d" for r c
  proof -
    have "coeffs D' ! (dof + r) ! (dof + c) = coeffs D1 ! (dof + r) ! (dof + c)"
      using that fit by (intro outb) auto
    also have "\<dots> = coeffs J ! r ! c"
      using that fit by (simp add: D1e)
    finally show ?thesis .
  qed
  have rest: "coeffs D' ! r ! c = coeffs D ! r ! c"
    if "r < nrows D" "c < nrows D"
       "\<not> (dof \<le> r \<and> r < dof + ?d \<and> dof \<le> c \<and> c < dof + ?d)"
       "\<forall>k<length Js.
          \<not> (dof + ?d + starts (map nrows Js) k \<le> r \<and> r < dof + ?d + starts (map nrows Js) k + nrows (Js ! k) \<and>
             dof + ?d + starts (map nrows Js) k \<le> c \<and> c < dof + ?d + starts (map nrows Js) k + nrows (Js ! k))"
    for r c
  proof -
    have "coeffs D' ! r ! c = coeffs D1 ! r ! c"
      using that(1,2,4) by (intro outb)
    also have "\<dots> = coeffs D ! r ! c"
      using that(1,2,3) D1e [of r c] by presburger
    finally show ?thesis .
  qed
  show ?case
    apply (rule exI [of _ D'])
    apply (simp only: all_less_Suc_shift length_Cons)
    using D1 D' first inb rest
    apply (simp add: add.assoc)
    done
qed

lemma offset_starts: "offset Ts i = starts (map DOFOf Ts) i"
  by (simp add: offset_def starts_def take_map)

lemma offset_0 [simp]: "offset Ts 0 = 0"
  by (simp add: offset_def)

lemma offset_Cons_Suc [simp]: "offset (T # Ts) (Suc i) = DOFOf T + offset Ts i"
  by (simp add: offset_def)

lemma forEachManifoldWithOther3_assemble:
  assumes "length xs = length Ts" "length ys = length Ts" "length Js = length Ts"
      and "dof + sum_list (map DOFOf Ts) \<le> length Er1"
      and "\<forall>i<length Ts.
             transformReferenceJacobian3 thr (Ts ! i) (xs ! i) (ys ! i)
               (take (DOFOf (Ts ! i)) (drop (dof + offset Ts i) Er1)) = Some (Js ! i) \<and>
             nrows (Js ! i) = DOFOf (Ts ! i)"
  shows "forEachManifoldWithOther3 thr Ts xs ys Er1 D dof = assemble D dof Js"
  using assms
proof (induction Ts arbitrary: xs ys Js D dof)
  case Nil
  then show ?case by simp
next
  case (Cons T Ts)
  then obtain x xs' y ys' J Js' where eq: "xs = x # xs'" "ys = y # ys'" "Js = J # Js'"
    by (auto simp: length_Suc_conv)
  from Cons.prems(5) eq have h0:
    "transformReferenceJacobian3 thr T x y (take (DOFOf T) (drop dof Er1)) = Some J"
    "nrows J = DOFOf T"
    by (auto simp: all_less_Suc_shift)
  from Cons.prems(5) eq have hS:
    "\<forall>i<length Ts.
       transformReferenceJacobian3 thr (Ts ! i) (xs' ! i) (ys' ! i)
         (take (DOFOf (Ts ! i)) (drop ((dof + DOFOf T) + offset Ts i) Er1)) = Some (Js' ! i) \<and>
       nrows (Js' ! i) = DOFOf (Ts ! i)"
    by (simp add: all_less_Suc_shift add.assoc)
  have seg: "segment Er1 dof (DOFOf T) = Some (take (DOFOf T) (drop dof Er1))"
    using Cons.prems(4) by (simp add: segment_def)
  have IH: "forEachManifoldWithOther3 thr Ts xs' ys' Er1 D' (dof + DOFOf T) =
            assemble D' (dof + DOFOf T) Js'" for D'
    using Cons.prems eq hS by (intro Cons.IH) simp_all
  show ?case
    by (simp add: eq seg h0 IH cong: Option.bind_cong)
qed

lemma forEachManifoldWithOther2_assemble:
  assumes "length xs = length Ts" "length ys = length Ts" "length Js = length Ts"
      and "\<forall>i<length Ts.
             transformReferenceJacobian2 thr (Ts ! i) (xs ! i) (ys ! i) = Some (Js ! i) \<and>
             nrows (Js ! i) = DOFOf (Ts ! i)"
  shows "forEachManifoldWithOther2 thr Ts xs ys D dof = assemble D dof Js"
  using assms
proof (induction Ts arbitrary: xs ys Js D dof)
  case Nil
  then show ?case by simp
next
  case (Cons T Ts)
  then obtain x xs' y ys' J Js' where eq: "xs = x # xs'" "ys = y # ys'" "Js = J # Js'"
    by (auto simp: length_Suc_conv)
  from Cons.prems(4) eq have h0:
    "transformReferenceJacobian2 thr T x y = Some J" "nrows J = DOFOf T"
    by (auto simp: all_less_Suc_shift)
  from Cons.prems(4) eq have hS:
    "\<forall>i<length Ts.
       transformReferenceJacobian2 thr (Ts ! i) (xs' ! i) (ys' ! i) = Some (Js' ! i) \<and>
       nrows (Js' ! i) = DOFOf (Ts ! i)"
    by (simp add: all_less_Suc_shift)
  have IH: "forEachManifoldWithOther2 thr Ts xs' ys' D' (dof + DOFOf T) =
            assemble D' (dof + DOFOf T) Js'" for D'
    using Cons.prems eq hS by (intro Cons.IH) simp_all
  show ?case
    by (simp add: eq h0 IH cong: Option.bind_cong)
qed

lemma Identity_simps [simp]:
  "nrows (Identity T r c) = r" "ncols (Identity T r c) = c" "storage (Identity T r c) = T"
  by (simp_all add: Identity_def)

lemma Identity_nth:
  "r < n \<Longrightarrow> c < m \<Longrightarrow> coeffs (Identity T n m) ! r ! c = (if r = c then 1 else 0)"
  by (simp add: Identity_def)

lemma well_shaped_Identity: "well_shaped (Identity T n m)"
  by (simp add: well_shaped_def Identity_def list_all_iff)

lemma assemble_Identity:
  assumes "length Js = length Ts"
      and "\<forall>i<length Ts. nrows (Js ! i) = DOFOf (Ts ! i) \<and> ncols (Js ! i) = DOFOf (Ts ! i)"
      and "sum_list (map DOFOf Ts) \<le> n"
  shows "\<exists>D. assemble (Identity T n n) 0 Js = Some D \<and> nrows D = n \<and> ncols D = n
           \<and> storage D = T \<and> well_shaped D
           \<and> (\<forall>i<length Ts. \<forall>r<DOFOf (Ts ! i). \<forall>c<DOFOf (Ts ! i).
                 coeffs D ! (offset Ts i + r) ! (offset Ts i + c) = coeffs (Js ! i) ! r ! c)
           \<and> (\<forall>r<n. \<forall>c<n.
                 (\<forall>k<length Ts. \<not> (offset Ts k \<le> r \<and> r < offset Ts k + DOFOf (Ts ! k) \<and>
                                     offset Ts k \<le> c \<and> c < offset Ts k + DOFOf (Ts ! k))) \<longrightarrow>
                 coeffs D ! r ! c = (if r = c then 1 else 0))"
proof -
  have m: "map nrows Js = map DOFOf Ts"
    using assms(1,2) by (intro nth_equalityI) simp_all
  have sq: "list_all (\<lambda>J. ncols J = nrows J) Js"
    using assms(1,2) by (simp add: list_all_length)
  have "0 + sum_list (map nrows Js) \<le> nrows (Identity T n n)"
       "ncols (Identity T n n) = nrows (Identity T n n)"
    using assms(3) m by simp_all
  from assemble_entries [OF this sq]
  obtain D where D: "assemble (Identity T n n) 0 Js = Some D" "nrows D = n" "ncols D = n"
      "storage D = T" "well_shaped D"
    and inb: "\<And>k r c. k < length Js \<Longrightarrow> r < nrows (Js ! k) \<Longrightarrow> c < nrows (Js ! k) \<Longrightarrow>
                 coeffs D ! (0 + starts (map nrows Js) k + r) ! (0 + starts (map nrows Js) k + c) =
                 coeffs (Js ! k) ! r ! c"
    and outb: "\<And>r c. r < n \<Longrightarrow> c < n \<Longrightarrow>
                 (\<forall>k<length Js.
                    \<not> (0 + starts (map nrows Js) k \<le> r \<and> r < 0 + starts (map nrows Js) k + nrows (Js ! k) \<and>
                       0 + starts (map nrows Js) k \<le> c \<and> c < 0 + starts (map nrows Js) k + nrows (Js ! k))) \<Longrightarrow>
                 coeffs D ! r ! c = coeffs (Identity T n n) ! r ! c"
    by (auto simp: well_shaped_Identity)
  have a: "coeffs D ! (offset Ts i + r) ! (offset Ts i + c) = coeffs (Js ! i) ! r ! c"
    if "i < length Ts" "r < DOFOf (Ts ! i)" "c < DOFOf (Ts ! i)" for i r c
    using inb [of i r c] that assms(1,2) by (simp add: m offset_starts)
  have b: "coeffs D ! r ! c = (if r = c then 1 else 0)"
    if "r < n" "c < n"
       "\<forall>k<length Ts. \<not> (offset Ts k \<le> r \<and> r < offset Ts k + DOFOf (Ts ! k) \<and>
                          offset Ts k \<le> c \<and> c < offset Ts k + DOFOf (Ts ! k))" for r c
  proof -
    have "coeffs D ! r ! c = coeffs (Identity T n n) ! r ! c"
      using that assms(1,2) by (intro outb) (simp_all add: m offset_starts)
    then show ?thesis using that by (simp add: Identity_nth)
  qed
  show ?thesis
    using D a b by blast
qed

lemma transformReferenceJacobian3_compound:
  assumes "length xs = length Ts" "length ys = length Ts"
      and "sum_list (map DOFOf Ts) \<le> n" "length Er1 = n"
      and sub: "\<forall>i<length Ts. \<exists>J.
             transformReferenceJacobian3 thr (Ts ! i) (xs ! i) (ys ! i)
               (take (DOFOf (Ts ! i)) (drop (offset Ts i) Er1)) = Some J \<and>
             nrows J = DOFOf (Ts ! i) \<and> ncols J = DOFOf (Ts ! i)"
  shows "\<exists>D. transformReferenceJacobian3 thr (CompoundManifold n Ts) (Parts xs) (Parts ys) Er1 = Some D
           \<and> nrows D = n \<and> ncols D = n \<and> storage D = AutoMatrixType thr n n \<and> well_shaped D
           \<and> (\<forall>i<length Ts. \<forall>J.
                 transformReferenceJacobian3 thr (Ts ! i) (xs ! i) (ys ! i)
                   (take (DOFOf (Ts ! i)) (drop (offset Ts i) Er1)) = Some J \<longrightarrow>
                 (\<forall>r<DOFOf (Ts ! i). \<forall>c<DOFOf (Ts ! i).
                    coeffs D ! (offset Ts i + r) ! (offset Ts i + c) = coeffs J ! r ! c))
           \<and> (\<forall>r<n. \<forall>c<n.
                 (\<forall>k<length Ts. \<not> (offset Ts k \<le> r \<and> r < offset Ts k + DOFOf (Ts ! k) \<and>
                                     offset Ts k \<le> c \<and> c < offset Ts k + DOFOf (Ts ! k))) \<longrightarrow>
                 coeffs D ! r ! c = (if r = c then 1 else 0))"
proof -
  define Js where "Js = map (\<lambda>i. the (transformReferenceJacobian3 thr (Ts ! i) (xs ! i) (ys ! i)
               (take (DOFOf (Ts ! i)) (drop (offset Ts i) Er1)))) [0..<length Ts]"
  have len: "length Js = length Ts" by (simp add: Js_def)
  have Js: "transformReferenceJacobian3 thr (Ts ! i) (xs ! i) (ys ! i)
               (take (DOFOf (Ts ! i)) (drop (offset Ts i) Er1)) = Some (Js ! i)
            \<and> nrows (Js ! i) = DOFOf (Ts ! i) \<and> ncols (Js ! i) = DOFOf (Ts ! i)"
    if "i < length Ts" for i
    using sub that by (auto simp: Js_def)
  have "forEachManifoldWithOther3 thr Ts xs ys Er1 (Identity (AutoMatrixType thr n n) n n) 0 =
        assemble (Identity (AutoMatrixType thr n n) n n) 0 Js"
    using assms(1-4) len Js by (intro forEachManifoldWithOther3_assemble) simp_all
  moreover from assemble_Identity [OF len _ assms(3), of "AutoMatrixType thr n n"] Js
  obtain D where "assemble (Identity (AutoMatrixType thr n n) n n) 0 Js = Some D" "nrows D = n"
      "ncols D = n" "storage D = AutoMatrixType thr n n" "well_shaped D"
      "\<forall>i<length Ts. \<forall>r<DOFOf (Ts ! i). \<forall>c<DOFOf (Ts ! i).
          coeffs D ! (offset Ts i + r) ! (offset Ts i + c) = coeffs (Js ! i) ! r ! c"
      "\<forall>r<n. \<forall>c<n.
          (\<forall>k<length Ts. \<not> (offset Ts k \<le> r \<and> r < offset Ts k + DOFOf (Ts ! k) \<and>
                              offset Ts k \<le> c \<and> c < offset Ts k + DOFOf (Ts ! k))) \<longrightarrow>
          coeffs D ! r ! c = (if r = c then 1 else 0)"
    by blast
  ultimately show ?thesis
    using Js by (intro exI [of _ D]) auto
qed

lemma transformReferenceJacobian2_compound:
  assumes "length xs = length Ts" "length ys = length Ts"
      and "sum_list (map DOFOf Ts) \<le> n"
      and sub: "\<forall>i<length Ts. \<exists>J.
             transformReferenceJacobian2 thr (Ts ! i) (xs ! i) (ys ! i) = Some J \<and>
             nrows J = DOFOf (Ts ! i) \<and> ncols J = DOFOf (Ts ! i)"
  shows "\<exists>D. transformReferenceJacobian2 thr (CompoundManifold n Ts) (Parts xs) (Parts ys) = Some D
           \<and> nrows D = n \<and> ncols D = n \<and> storage D = AutoMatrixType thr n n \<and> well_shaped D
           \<and> (\<forall>i<length Ts. \<forall>J.
                 transformReferenceJacobian2 thr (Ts ! i) (xs ! i) (ys ! i) = Some J \<longrightarrow>
                 (\<forall>r<DOFOf (Ts ! i). \<forall>c<DOFOf (Ts ! i).
                    coeffs D ! (offset Ts i + r) ! (offset Ts i + c) = coeffs J ! r ! c))
           \<and> (\<forall>r<n. \<forall>c<n.
                 (\<forall>k<length Ts. \<not> (offset Ts k \<le> r \<and> r < offset Ts k + DOFOf (Ts ! k) \<and>
                                     offset Ts k \<le> c \<and> c < offset Ts k + DOFOf (Ts ! k))) \<longrightarrow>
                 coeffs D ! r ! c = (if r = c then 1 else 0))"
proof -
  define Js where "Js = map (\<lambda>i. the (transformReferenceJacobian2 thr (Ts ! i) (xs ! i) (ys ! i)))
                          [0..<length Ts]"
  have len: "length Js = length Ts" by (simp add: Js_def)
  have Js: "transformReferenceJacobian2 thr (Ts ! i) (xs ! i) (ys ! i) = Some (Js ! i)
            \<and> nrows (Js ! i) = DOFOf (Ts ! i) \<and> ncols (Js ! i) = DOFOf (Ts ! i)"
    if "i < length Ts" for i
    using sub that by (auto simp: Js_def)
  have "forEachManifoldWithOther2 thr Ts xs ys (Identity (AutoMatrixType thr n n) n n) 0 =
        assemble (Identity (AutoMatrixType thr n n) n n) 0 Js"
    using assms(1-3) len Js by (intro forEachManifoldWithOther2_assemble) simp_all
  moreover from assemble_Identity [OF len _ assms(3), of "AutoMatrixType thr n n"] Js
  obtain D where "assemble (Identity (AutoMatrixType thr n n) n n) 0 Js = Some D" "nrows D = n"
      "ncols D = n" "storage D = AutoMatrixType thr n n" "well_shaped D"
      "\<forall>i<length Ts. \<forall>r<DOFOf (Ts ! i). \<forall>c<DOFOf (Ts ! i).
          coeffs D ! (offset Ts i + r) ! (offset Ts i + c) = coeffs (Js ! i) ! r ! c"
      "\<forall>r<n. \<forall>c<n.
          (\<forall>k<length Ts. \<not> (offset Ts k \<le> r \<and> r < offset Ts k + DOFOf (Ts ! k) \<and>
                              offset Ts k \<le> c \<and> c < offset Ts k + DOFOf (Ts ! k))) \<longrightarrow>
          coeffs D ! r ! c = (if r = c then 1 else 0)"
    by blast
  ultimately show ?thesis
    using Js by (intro exI [of _ D]) auto
qed

lemma offset_block_le:
  "i < length Ts \<Longrightarrow> offset Ts i + DOFOf (Ts ! i) \<le> sum_list (map DOFOf Ts)"
proof -
  assume i: "i < length Ts"
  have "sum_list (map DOFOf Ts) =
        sum_list (map DOFOf (take i Ts @ Ts ! i # drop (Suc i) Ts))"
    using i by (simp add: id_take_nth_drop [symmetric])
  then show ?thesis by (simp add: offset_def)
qed

lemma offset_mono:
  assumes "i < j" "j \<le> length Ts"
  shows "offset Ts i + DOFOf (Ts ! i) \<le> offset Ts j"
proof -
  have "offset (take j Ts) i + DOFOf (take j Ts ! i) \<le> sum_list (map DOFOf (take j Ts))"
    using assms by (intro offset_block_le) simp
  then show ?thesis
    using assms by (simp add: offset_def min_def)
qed

lemma jets_typed_derivator: "jets_typed n n (derivator n :: ('a::{zero,one}) jet list)"
  by (simp add: derivator_basis_seed jets_typed_basis_seed)

lemma jets_typed_plus_derivator:
  "length Er1 = n \<Longrightarrow>
   jets_typed n n (map2 scalar_plus_jet Er1 (derivator n :: ('a::{zero,one,plus}) jet list))"
  by (auto simp: derivator_basis_seed basis_seed_def unit_vector_def jets_typed_def
      list_all_iff scalar_plus_jet_def set_zip)

lemma well_shaped_extract:
  "jets_typed n m res \<Longrightarrow>
   well_shaped \<lparr>storage = T, nrows = n, ncols = m, coeffs = map v res\<rparr>"
  by (simp add: well_shaped_def jets_typed_def list_all_iff)

lemma has_type_ManifoldE:
  assumes "has_type x (Manifold n boxplus boxminus)"
  obtains r where "x = Single r"
  using assms by (cases x) simp_all

lemma has_type_CompoundE:
  assumes "has_type x (CompoundManifold n Ts)"
  obtains xs where "x = Parts xs" "length xs = length Ts"
    "\<And>i. i < length Ts \<Longrightarrow> has_type (xs ! i) (Ts ! i)"
  using assms by (cases x) (auto simp: list_all2_conv_all_nth)

lemma transformReferenceJacobian3_total:
  fixes Er1 :: "('a::{zero,one,plus}) list"
  assumes "DOF_consistent T" "operators_typed T" "has_type x T" "has_type y T"
      and "length Er1 = DOFOf T"
  shows "\<exists>J. transformReferenceJacobian3 thr T x y Er1 = Some J \<and> nrows J = DOFOf T
           \<and> ncols J = DOFOf T \<and> storage J = AutoMatrixType thr (DOFOf T) (DOFOf T)
           \<and> well_shaped J"
  using assms
proof (induction T arbitrary: x y Er1)
  case (Manifold n boxplus boxminus)
  from Manifold.prems(3,4) obtain ref1 ref2 where xy: "x = Single ref1" "y = Single ref2"
    by (auto elim!: has_type_ManifoldE)
  have len: "length Er1 = length (derivator n :: 'a jet list)"
    using Manifold.prems(5) by (simp add: derivator_basis_seed basis_seed_def)
  have "jets_typed n n (boxminus (boxplus ref1 (map2 scalar_plus_jet Er1 (derivator n))) ref2)"
    using Manifold.prems(2,5) jets_typed_plus_derivator [of Er1 n] by simp
  then show ?case
    by (simp add: xy vector_plus_jets_def len extractJacobi_Some well_shaped_extract)
next
  case (CompoundManifold n Ts)
  from CompoundManifold.prems(3) obtain xs where xs: "x = Parts xs" "length xs = length Ts"
    "\<And>i. i < length Ts \<Longrightarrow> has_type (xs ! i) (Ts ! i)"
    by (auto elim!: has_type_CompoundE)
  from CompoundManifold.prems(4) obtain ys where ys: "y = Parts ys" "length ys = length Ts"
    "\<And>i. i < length Ts \<Longrightarrow> has_type (ys ! i) (Ts ! i)"
    by (auto elim!: has_type_CompoundE)
  have sum: "sum_list (map DOFOf Ts) \<le> n" and n: "length Er1 = n"
    using CompoundManifold.prems by simp_all
  have sub: "\<exists>J. transformReferenceJacobian3 thr (Ts ! i) (xs ! i) (ys ! i)
               (take (DOFOf (Ts ! i)) (drop (offset Ts i) Er1)) = Some J \<and>
             nrows J = DOFOf (Ts ! i) \<and> ncols J = DOFOf (Ts ! i)" if i: "i < length Ts" for i
  proof -
    have len: "length (take (DOFOf (Ts ! i)) (drop (offset Ts i) Er1)) = DOFOf (Ts ! i)"
      using offset_block_le [OF i] sum n by simp
    have c: "DOF_consistent (Ts ! i)" "operators_typed (Ts ! i)"
      using CompoundManifold.prems(1,2) i by (simp_all add: list_all_length)
    have mem: "Ts ! i \<in> set Ts"
      using i by simp
    from CompoundManifold.IH [OF mem c xs(3) [OF i] ys(3) [OF i] len]
    show ?thesis by blast
  qed
  from transformReferenceJacobian3_compound [OF xs(2) ys(2) sum n, of thr] sub
  show ?case
    unfolding xs(1) ys(1) by fastforce
qed

lemma transformReferenceJacobian2_total:
  fixes T :: "('m, 'j, 'a::{zero,one}) manifold_type"
  assumes "DOF_consistent T" "operators_typed T" "has_type x T" "has_type y T"
  shows "\<exists>J. transformReferenceJacobian2 thr T x y = Some J \<and> nrows J = DOFOf T
           \<and> ncols J = DOFOf T \<and> storage J = AutoMatrixType thr (DOFOf T) (DOFOf T)
           \<and> well_shaped J"
  using assms
proof (induction T arbitrary: x y)
  case (Manifold n boxplus boxminus)
  from Manifold.prems(3,4) obtain ref1 ref2 where xy: "x = Single ref1" "y = Single ref2"
    by (auto elim!: has_type_ManifoldE)
  have "jets_typed n n (boxminus (boxplus ref1 (derivator n)) ref2)"
    using Manifold.prems(2) jets_typed_derivator [of n] by (simp del: all_simps) blast
  then show ?case
    by (simp add: xy extractJacobi_Some well_shaped_extract)
next
  case (CompoundManifold n Ts)
  from CompoundManifold.prems(3) obtain xs where xs: "x = Parts xs" "length xs = length Ts"
    "\<And>i. i < length Ts \<Longrightarrow> has_type (xs ! i) (Ts ! i)"
    by (auto elim!: has_type_CompoundE)
  from CompoundManifold.prems(4) obtain ys where ys: "y = Parts ys" "length ys = length Ts"
    "\<And>i. i < length Ts \<Longrightarrow> has_type (ys ! i) (Ts ! i)"
    by (auto elim!: has_type_CompoundE)
  have sum: "sum_list (map DOFOf Ts) \<le> n"
    using CompoundManifold.prems by simp
  have sub: "\<exists>J. transformReferenceJacobian2 thr (Ts ! i) (xs ! i) (ys ! i) = Some J \<and>
             nrows J = DOFOf (Ts ! i) \<and> ncols J = DOFOf (Ts ! i)" if i: "i < length Ts" for i
  proof -
    have c: "DOF_consistent (Ts ! i)" "operators_typed (Ts ! i)"
      using CompoundManifold.prems(1,2) i by (simp_all add: list_all_length)
    have mem: "Ts ! i \<in> set Ts"
      using i by simp
    from CompoundManifold.IH [OF mem c xs(3) [OF i] ys(3) [OF i]]
    show ?thesis by blast
  qed
  from transformReferenceJacobian2_compound [OF xs(2) ys(2) sum, of thr] sub
  show ?case
    unfolding xs(1) ys(1) by fastforce
qed

lemma block_eqI:
  assumes "length M = p" "\<forall>r<p. length (M ! r) = q"
      and "\<forall>r<p. \<forall>c<q. coeffs D ! (i + r) ! (j + c) = M ! r ! c"
  shows "block D i j p q = M"
  using assms by (auto simp: block_def intro!: nth_equalityI)

lemma well_shaped_rows:
  "well_shaped J \<Longrightarrow> length (coeffs J) = nrows J \<and> (\<forall>r<nrows J. length (coeffs J ! r) = ncols J)"
  by (simp add: well_shaped_def list_all_length)

lemma block_unique:
  assumes "i < length Ts" "k < length Ts"
      and "offset Ts i \<le> r" "r < offset Ts i + DOFOf (Ts ! i)"
      and "offset Ts k \<le> r" "r < offset Ts k + DOFOf (Ts ! k)"
  shows "i = k"
proof (rule ccontr)
  assume "i \<noteq> k"
  then consider "i < k" | "k < i" by linarith
  then show False
  proof cases
    case 1
    from offset_mono [OF 1, of Ts] assms show False by simp
  next
    case 2
    from offset_mono [OF 2, of Ts] assms show False by simp
  qed
qed

lemma offset_Suc: "i < length Ts \<Longrightarrow> offset Ts (Suc i) = offset Ts i + DOFOf (Ts ! i)"
  by (simp add: offset_def take_Suc_conv_app_nth)

text \<open>What both overloads' results share, from the entries to the blocks.\<close>

lemma blocks_of_entries:
  assumes sum: "sum_list (map DOFOf Ts) \<le> n"
      and out: "\<forall>r<n. \<forall>c<n.
                 (\<forall>k<length Ts. \<not> (offset Ts k \<le> r \<and> r < offset Ts k + DOFOf (Ts ! k) \<and>
                                     offset Ts k \<le> c \<and> c < offset Ts k + DOFOf (Ts ! k))) \<longrightarrow>
                 coeffs D ! r ! c = (if r = c then 1 else (0::'a::{zero,one}))"
  shows "\<forall>i<length Ts. \<forall>j<length Ts. i \<noteq> j \<longrightarrow>
           block D (offset Ts i) (offset Ts j) (DOFOf (Ts ! i)) (DOFOf (Ts ! j)) =
           replicate (DOFOf (Ts ! i)) (replicate (DOFOf (Ts ! j)) 0)"
proof (intro allI impI)
  fix i j assume ij: "i < length Ts" "j < length Ts" "i \<noteq> j"
  have "coeffs D ! (offset Ts i + r) ! (offset Ts j + c) = 0"
    if rc: "r < DOFOf (Ts ! i)" "c < DOFOf (Ts ! j)" for r c
  proof -
    have lt: "offset Ts i + r < n" "offset Ts j + c < n"
      using offset_block_le [OF ij(1)] offset_block_le [OF ij(2)] rc sum by simp_all
    have no: "\<not> (offset Ts k \<le> offset Ts i + r \<and> offset Ts i + r < offset Ts k + DOFOf (Ts ! k) \<and>
                 offset Ts k \<le> offset Ts j + c \<and> offset Ts j + c < offset Ts k + DOFOf (Ts ! k))"
      if k: "k < length Ts" for k
    proof
      assume h: "offset Ts k \<le> offset Ts i + r \<and> offset Ts i + r < offset Ts k + DOFOf (Ts ! k) \<and>
                 offset Ts k \<le> offset Ts j + c \<and> offset Ts j + c < offset Ts k + DOFOf (Ts ! k)"
      have "i = k"
        using h rc by (intro block_unique [OF ij(1) k, of "offset Ts i + r"]) simp_all
      moreover have "j = k"
        using h rc by (intro block_unique [OF ij(2) k, of "offset Ts j + c"]) simp_all
      ultimately show False using ij(3) by simp
    qed
    have ne: "offset Ts i + r \<noteq> offset Ts j + c"
    proof
      assume e: "offset Ts i + r = offset Ts j + c"
      have "i = j"
        using e rc by (intro block_unique [OF ij(1) ij(2), of "offset Ts i + r"]) simp_all
      then show False using ij(3) by simp
    qed
    from out lt no ne show ?thesis by simp
  qed
  then show "block D (offset Ts i) (offset Ts j) (DOFOf (Ts ! i)) (DOFOf (Ts ! j)) =
           replicate (DOFOf (Ts ! i)) (replicate (DOFOf (Ts ! j)) 0)"
    by (intro block_eqI) simp_all
qed

lemma operators_typed_scalar_manifold:
  "operators_typed (scalar_manifold :: ('a, 'a jet, 'a::{plus,minus}) manifold_type)"
  by (auto simp: scalar_manifold_def jets_typed_def jet_minus_scalar_def scalar_plus_jet_def
      length_Suc_conv)

lemma extractJacobi_derivator:
  "extractJacobi thr n n (derivator n :: ('a::{zero,one}) jet list) =
     Some (Identity (AutoMatrixType thr n n) n n)"
proof -
  have c: "map v (basis_seed n :: 'a jet list) =
           map (\<lambda>i. map (\<lambda>j. if i = j then 1 else 0) [0..<n]) [0..<n]"
    by (simp add: basis_seed_def unit_vector_def cong: map_cong)
  have e: "extractJacobi thr n n (basis_seed n :: 'a jet list) =
           Some \<lparr>storage = AutoMatrixType thr n n, nrows = n, ncols = n,
                 coeffs = map v (basis_seed n)\<rparr>"
    by (rule extractJacobi_Some) (simp_all add: jets_typed_basis_seed)
  show ?thesis
    unfolding derivator_basis_seed e c by (simp add: Identity_def)
qed

lemma matrix_eqI:
  assumes "storage A = storage B" "nrows A = n" "nrows B = n" "ncols A = m" "ncols B = m"
      and "well_shaped A" "well_shaped B"
      and "\<forall>r<n. \<forall>c<m. coeffs A ! r ! c = coeffs B ! r ! c"
  shows "A = (B :: 'a matrix)"
proof -
  have "coeffs A = coeffs B"
    using assms by (auto simp: well_shaped_def list_all_length intro!: nth_equalityI)
  then show ?thesis
    using assms(1-5) by (cases A, cases B) simp
qed

lemma set_block_dims:
  "set_block D i j p q B = Some D' \<Longrightarrow> nrows D' = nrows D \<and> ncols D' = ncols D"
  by (auto simp: set_block_def split: if_splits)

lemma set_block_out_of_range: "nrows D < i + p \<Longrightarrow> set_block D i j p q B = None"
  by (simp add: set_block_def)

lemma vector_plus_jets_zero:
  assumes "(0::'a::{zero,one,plus}) + 0 = 0"
  shows "vector_plus_jets (replicate n (0::'a)) (derivator n) = Some (derivator n)"
proof -
  have "map2 scalar_plus_jet (replicate n (0::'a)) (basis_seed n) = basis_seed n"
    using assms by (auto simp: basis_seed_def scalar_plus_jet_def intro!: nth_equalityI)
  then show ?thesis
    by (simp add: vector_plus_jets_def derivator_basis_seed) (simp add: basis_seed_def)
qed

lemma forEachManifoldWithOther_zero:
  fixes D :: "('a::{zero,one,plus}) matrix"
  assumes IH: "\<And>T x y. T \<in> set Ts \<Longrightarrow>
                 transformReferenceJacobian2 thr T x y =
                 transformReferenceJacobian3 thr T x y (replicate (DOFOf T) 0)"
      and "nrows D = n"
  shows "forEachManifoldWithOther2 thr Ts xs ys D dof =
         forEachManifoldWithOther3 thr Ts xs ys (replicate n 0) D dof"
  using assms
proof (induction Ts arbitrary: xs ys D dof)
  case Nil
  then show ?case by (cases xs; cases ys) simp_all
next
  case (Cons T Ts)
  show ?case
  proof (cases xs)
    case Nil
    then show ?thesis by (cases ys) simp_all
  next
    case xs: (Cons x xs')
    show ?thesis
    proof (cases ys)
      case Nil
      then show ?thesis using xs by simp
    next
      case ys: (Cons y ys')
      show ?thesis
      proof (cases "dof + DOFOf T \<le> n")
        case True
        have seg: "segment (replicate n (0::'a)) dof (DOFOf T) = Some (replicate (DOFOf T) 0)"
          using True by (simp add: segment_def min_def)
        have sub: "transformReferenceJacobian2 thr T x y =
                   transformReferenceJacobian3 thr T x y (replicate (DOFOf T) 0)"
          by (rule Cons.prems(1)) simp
        have rest: "forEachManifoldWithOther2 thr Ts xs' ys' D' (dof + DOFOf T) =
                    forEachManifoldWithOther3 thr Ts xs' ys' (replicate n 0) D' (dof + DOFOf T)"
          if "set_block D dof dof (DOFOf T) (DOFOf T) J = Some D'" for J D'
          using Cons.prems set_block_dims [OF that] by (intro Cons.IH) simp_all
        show ?thesis
          by (simp add: xs ys seg sub rest cong: Option.bind_cong)
      next
        case False
        then have "segment (replicate n (0::'a)) dof (DOFOf T) = None"
          by (simp add: segment_def)
        moreover have "set_block D dof dof (DOFOf T) (DOFOf T) J = None" for J
          using False Cons.prems(2) by (intro set_block_out_of_range) simp
        ultimately show ?thesis
          by (simp add: xs ys split: Option.bind_split)
      qed
    qed
  qed
qed

lemma tail_of_entries:
  fixes D :: "('a::{zero,one}) matrix"
  assumes sum: "sum_list (map DOFOf Ts) \<le> n"
      and out: "\<forall>r<n. \<forall>c<n.
                 (\<forall>k<length Ts. \<not> (offset Ts k \<le> r \<and> r < offset Ts k + DOFOf (Ts ! k) \<and>
                                     offset Ts k \<le> c \<and> c < offset Ts k + DOFOf (Ts ! k))) \<longrightarrow>
                 coeffs D ! r ! c = (if r = c then 1 else 0)"
  shows "block D (sum_list (map DOFOf Ts)) (sum_list (map DOFOf Ts))
               (n - sum_list (map DOFOf Ts)) (n - sum_list (map DOFOf Ts)) =
           coeffs (Identity Dynamic (n - sum_list (map DOFOf Ts)) (n - sum_list (map DOFOf Ts)) :: 'a matrix)
       \<and> block D 0 (sum_list (map DOFOf Ts)) (sum_list (map DOFOf Ts)) (n - sum_list (map DOFOf Ts)) =
           replicate (sum_list (map DOFOf Ts)) (replicate (n - sum_list (map DOFOf Ts)) 0)
       \<and> block D (sum_list (map DOFOf Ts)) 0 (n - sum_list (map DOFOf Ts)) (sum_list (map DOFOf Ts)) =
           replicate (n - sum_list (map DOFOf Ts)) (replicate (sum_list (map DOFOf Ts)) 0)"
proof -
  define s where "s = sum_list (map DOFOf Ts)"
  have e: "coeffs D ! r ! c = (if r = c then 1 else 0)" if "r < n" "c < n" "s \<le> r \<or> s \<le> c" for r c
  proof -
    have "\<not> (offset Ts k \<le> r \<and> r < offset Ts k + DOFOf (Ts ! k) \<and>
              offset Ts k \<le> c \<and> c < offset Ts k + DOFOf (Ts ! k))" if "k < length Ts" for k
      using offset_block_le [OF that] \<open>s \<le> r \<or> s \<le> c\<close> by (auto simp: s_def)
    with out that show ?thesis by blast
  qed
  have 1: "block D s s (n - s) (n - s) = coeffs (Identity Dynamic (n - s) (n - s) :: 'a matrix)"
    using sum by (intro block_eqI) (auto simp: Identity_def e s_def)
  have 2: "block D 0 s s (n - s) = replicate s (replicate (n - s) 0)"
    using sum by (intro block_eqI) (auto simp: e s_def)
  have 3: "block D s 0 (n - s) s = replicate (n - s) (replicate s 0)"
    using sum by (intro block_eqI) (auto simp: e s_def)
  show ?thesis
    using 1 2 3 unfolding s_def by blast
qed

lemma compound_outside3:
  fixes Er1 :: "('a::{zero,one,plus}) list"
  assumes "DOF_consistent (CompoundManifold n Ts)" "operators_typed (CompoundManifold n Ts)"
      and "has_type (Parts xs) (CompoundManifold n Ts)"
      and "has_type (Parts ys) (CompoundManifold n Ts)"
      and "length Er1 = n"
  shows "\<exists>D. transformReferenceJacobian3 thr (CompoundManifold n Ts) (Parts xs) (Parts ys) Er1 = Some D
           \<and> (\<forall>r<n. \<forall>c<n.
                 (\<forall>k<length Ts. \<not> (offset Ts k \<le> r \<and> r < offset Ts k + DOFOf (Ts ! k) \<and>
                                     offset Ts k \<le> c \<and> c < offset Ts k + DOFOf (Ts ! k))) \<longrightarrow>
                 coeffs D ! r ! c = (if r = c then 1 else 0))"
proof -
  have len: "length xs = length Ts" "length ys = length Ts"
    and tx: "\<And>i. i < length Ts \<Longrightarrow> has_type (xs ! i) (Ts ! i)"
    and ty: "\<And>i. i < length Ts \<Longrightarrow> has_type (ys ! i) (Ts ! i)"
    using assms(3,4) by (simp_all add: list_all2_conv_all_nth)
  have sum: "sum_list (map DOFOf Ts) \<le> n"
    and wf: "\<And>i. i < length Ts \<Longrightarrow> DOF_consistent (Ts ! i) \<and> operators_typed (Ts ! i)"
    using assms(1,2) by (simp_all add: list_all_length)
  have "\<exists>J. transformReferenceJacobian3 thr (Ts ! i) (xs ! i) (ys ! i)
                 (take (DOFOf (Ts ! i)) (drop (offset Ts i) Er1)) = Some J
               \<and> nrows J = DOFOf (Ts ! i) \<and> ncols J = DOFOf (Ts ! i)"
    if i: "i < length Ts" for i
  proof -
    have "length (take (DOFOf (Ts ! i)) (drop (offset Ts i) Er1)) = DOFOf (Ts ! i)"
      using offset_block_le [OF i] sum assms(5) by simp
    from transformReferenceJacobian3_total [OF _ _ tx [OF i] ty [OF i] this, of thr] wf [OF i]
    show ?thesis by blast
  qed
  then have "\<forall>i<length Ts. \<exists>J. transformReferenceJacobian3 thr (Ts ! i) (xs ! i) (ys ! i)
                 (take (DOFOf (Ts ! i)) (drop (offset Ts i) Er1)) = Some J
               \<and> nrows J = DOFOf (Ts ! i) \<and> ncols J = DOFOf (Ts ! i)"
    by blast
  from transformReferenceJacobian3_compound [OF len sum assms(5) this]
  show ?thesis by blast
qed

lemma compound_outside2:
  fixes Ts :: "('m, 'j, 'a::{zero,one}) manifold_type list"
  assumes "DOF_consistent (CompoundManifold n Ts)" "operators_typed (CompoundManifold n Ts)"
      and "has_type (Parts xs) (CompoundManifold n Ts)"
      and "has_type (Parts ys) (CompoundManifold n Ts)"
  shows "\<exists>D. transformReferenceJacobian2 thr (CompoundManifold n Ts) (Parts xs) (Parts ys) = Some D
           \<and> (\<forall>r<n. \<forall>c<n.
                 (\<forall>k<length Ts. \<not> (offset Ts k \<le> r \<and> r < offset Ts k + DOFOf (Ts ! k) \<and>
                                     offset Ts k \<le> c \<and> c < offset Ts k + DOFOf (Ts ! k))) \<longrightarrow>
                 coeffs D ! r ! c = (if r = c then 1 else 0))"
proof -
  have len: "length xs = length Ts" "length ys = length Ts"
    and tx: "\<And>i. i < length Ts \<Longrightarrow> has_type (xs ! i) (Ts ! i)"
    and ty: "\<And>i. i < length Ts \<Longrightarrow> has_type (ys ! i) (Ts ! i)"
    using assms(3,4) by (simp_all add: list_all2_conv_all_nth)
  have sum: "sum_list (map DOFOf Ts) \<le> n"
    and wf: "\<And>i. i < length Ts \<Longrightarrow> DOF_consistent (Ts ! i) \<and> operators_typed (Ts ! i)"
    using assms(1,2) by (simp_all add: list_all_length)
  have "\<exists>J. transformReferenceJacobian2 thr (Ts ! i) (xs ! i) (ys ! i) = Some J
               \<and> nrows J = DOFOf (Ts ! i) \<and> ncols J = DOFOf (Ts ! i)"
    if i: "i < length Ts" for i
    using transformReferenceJacobian2_total [OF _ _ tx [OF i] ty [OF i], of thr] wf [OF i]
    by blast
  then have "\<forall>i<length Ts. \<exists>J. transformReferenceJacobian2 thr (Ts ! i) (xs ! i) (ys ! i) = Some J
               \<and> nrows J = DOFOf (Ts ! i) \<and> ncols J = DOFOf (Ts ! i)"
    by blast
  from transformReferenceJacobian2_compound [OF len sum this]
  show ?thesis by blast
qed

lemma clamp_loop_prefix:
  "k \<le> length sV0 \<Longrightarrow>
   fold (\<lambda>i (sV, positive). if sV ! i < eps then (sV[i := eps], False) else (sV, positive))
     [0..<k] (sV0, True) =
   (map (\<lambda>x. if x < eps then eps else x) (take k sV0) @ drop k sV0,
    list_all (\<lambda>x. \<not> x < eps) (take k sV0))"
proof (induction k)
  case 0
  then show ?case by simp
next
  case (Suc k)
  then have k: "k < length sV0" by simp
  let ?f = "\<lambda>i (sV, positive). if sV ! i < eps then (sV[i := eps], False) else (sV, positive)"
  let ?pre = "map (\<lambda>x. if x < eps then eps else x) (take k sV0)"
  let ?P = "list_all (\<lambda>x. \<not> x < eps) (take k sV0)"
  have nth: "(?pre @ drop k sV0) ! k = sV0 ! k"
    using k by (simp add: nth_append)
  have upd: "(?pre @ drop k sV0)[k := y] = ?pre @ y # drop (Suc k) sV0" for y
    using k by (simp add: list_update_append Cons_nth_drop_Suc [symmetric])
  have "fold ?f [0..<Suc k] (sV0, True) = ?f k (?pre @ drop k sV0, ?P)"
    using Suc.IH k by simp
  also have "\<dots> = (if sV0 ! k < eps then (?pre @ eps # drop (Suc k) sV0, False)
                   else (?pre @ sV0 ! k # drop (Suc k) sV0, ?P))"
    using k by (simp add: nth upd Cons_nth_drop_Suc)
  also have "\<dots> = (map (\<lambda>x. if x < eps then eps else x) (take (Suc k) sV0) @ drop (Suc k) sV0,
                   list_all (\<lambda>x. \<not> x < eps) (take (Suc k) sV0))"
    using k by (simp add: take_Suc_conv_app_nth)
  finally show ?case .
qed

lemma clamp_loop_eq:
  "clamp_loop eps sV = (map (\<lambda>x. if x < eps then eps else x) sV, list_all (\<lambda>x. \<not> x < eps) sV)"
  by (simp add: clamp_loop_def clamp_loop_prefix)

lemma assurePositiveDefinite_no_clamp:
  assumes "list_all (\<lambda>x. \<not> x < eps) (eigenvalues (solver matrix))"
  shows "assurePositiveDefinite NDEBUG solver ldlt matrix eps = Some matrix"
  using assms by (simp add: assurePositiveDefinite_def clamp_loop_eq)

lemma assurePositiveDefinite_clamp:
  assumes "\<not> list_all (\<lambda>x. \<not> x < eps) (eigenvalues (solver matrix))"
  shows "assurePositiveDefinite NDEBUG solver ldlt matrix eps =
           (if NDEBUG \<or> isPositiveDefinite ldlt
                 (reconstruct (solver matrix)
                    (map (\<lambda>x. if x < eps then eps else x) (eigenvalues (solver matrix))))
            then Some (reconstruct (solver matrix)
                    (map (\<lambda>x. if x < eps then eps else x) (eigenvalues (solver matrix))))
            else None)"
  using assms by (simp add: assurePositiveDefinite_def clamp_loop_eq Let_def)

lemma rebuilt_eigenvalues:
  fixes eps :: "'s::linorder"
  assumes "solver_contract solver"
  shows "list_all (\<lambda>x. eps \<le> x)
           (eigenvalues (solver (reconstruct (solver matrix)
              (map (\<lambda>x. if x < eps then eps else x) (eigenvalues (solver matrix))))))"
proof -
  have "set (eigenvalues (solver (reconstruct (solver matrix)
              (map (\<lambda>x. if x < eps then eps else x) (eigenvalues (solver matrix)))))) =
        set (map (\<lambda>x. if x < eps then eps else x) (eigenvalues (solver matrix)))"
    by (rule assms [unfolded solver_contract_def, rule_format]) simp
  then show ?thesis
    by (auto simp: list_all_iff)
qed

lemma solver_contract_1x1: "solver_contract solver_1x1"
  by (auto simp: solver_contract_def solver_1x1_def length_Suc_conv)


subsection \<open>The derivator\<close>

text \<open>
  Claim C6. At every call of \<^verbatim>\<open>getDerivator<Size>()\<close>, the first one or a later one and
  whatever the static vector held before the first call, the returned vector has in
  component \<open>i\<close> the scalar part \<open>0\<close> and the \<open>i\<close>-th standard basis vector of dimension
  \<open>Size\<close> as derivative components; the matrix whose columns are these derivative vectors
  is the identity of size \<open>Size\<close>. The result depends on \<open>Size\<close> only.
\<close>

theorem getDerivator_basis:
  fixes r0 :: "('a::{zero,one}) jet list"
  shows "fst (getDerivator Size (after_calls Size k r0)) =
           map (\<lambda>i. \<lparr>a = 0, v = map (\<lambda>j. if j = i then 1 else 0) [0..<Size]\<rparr>) [0..<Size]
       \<and> map (\<lambda>j. map (\<lambda>i. v (fst (getDerivator Size (after_calls Size k r0)) ! i) ! j)
                [0..<Size]) [0..<Size] =
           coeffs (Identity Dynamic Size Size :: 'a matrix)"
  by (simp add: getDerivator_after_calls basis_seed_def unit_vector_def Identity_def
      cong: map_cong)

subsection \<open>The extractor\<close>

text \<open>
  Claim C5. With the threshold at 100, \<^verbatim>\<open>AutoMatrixType<double, 2, 3>\<close> is the fixed-size
  \<open>2 \<times> 2\<close> type, so \<^verbatim>\<open>extractJacobi\<close> on two dual numbers with three derivative
  components each has no \<open>2 \<times> 3\<close> matrix to fill and returns none. With the threshold
  at 5 the type is dynamic and the same input gives the \<open>2 \<times> 3\<close> matrix of the
  derivative vectors: the choice of storage decides the outcome.
\<close>

theorem extractJacobi_fixed_not_square:
  "AutoMatrixType 100 2 3 = Fixed 2 2 \<and>
   extractJacobi 100 2 3 [\<lparr>a = 0, v = [1, 2, 3]\<rparr>, \<lparr>a = 0, v = [4, 5, 6 :: int]\<rparr>] = None \<and>
   extractJacobi 5 2 3 [\<lparr>a = 0, v = [1, 2, 3]\<rparr>, \<lparr>a = 0, v = [4, 5, 6 :: int]\<rparr>] =
     Some \<lparr>storage = Dynamic, nrows = 2, ncols = 3, coeffs = [[1, 2, 3], [4, 5, 6]]\<rparr>"
proof -
  have "jets_typed 2 3 [\<lparr>a = 0, v = [1, 2, 3]\<rparr>, \<lparr>a = 0, v = [4, 5, 6 :: int]\<rparr>]"
    by (simp add: jets_typed_def)
  moreover have "dynamicMatrix 5 2 3" "\<not> dynamicMatrix 100 2 3"
    by (simp_all add: dynamicMatrix_def int32_def)
  ultimately show ?thesis
    by (simp add: extractJacobi_Some extractJacobi_None AutoMatrixType_def)
qed

subsection \<open>The reference transform of a manifold that is not a composite\<close>

text \<open>
  Claim C1. For a manifold type that is not a CompoundManifold, the overload with \<open>Er1\<close>
  returns the Jacobian extracted from \<open>ref1 + (Er1 + derivator) - ref2\<close> and the overload
  without it the one extracted from \<open>ref1 + derivator - ref2\<close>, with the manifold's own
  operators. For the scalar manifold the result is the \<open>1 \<times> 1\<close> matrix \<open>[1]\<close>, whatever
  the two references are.
\<close>

theorem transformReferenceJacobian_not_compound:
  fixes Er1 :: "('a::{zero,one,plus}) list" and x y :: "'b::{zero,one,plus,minus}"
  shows "(length Er1 = n \<longrightarrow>
            transformReferenceJacobian3 thr (Manifold n boxplus boxminus) (Single ref1) (Single ref2) Er1 =
              extractJacobi thr n n
                (boxminus (boxplus ref1 (map2 scalar_plus_jet Er1 (derivator n))) ref2))
       \<and> transformReferenceJacobian2 thr (Manifold n boxplus boxminus) (Single ref1) (Single ref2) =
            extractJacobi thr n n (boxminus (boxplus ref1 (derivator n)) ref2)
       \<and> transformReferenceJacobian2 thr scalar_manifold (Single x) (Single y) =
            Some \<lparr>storage = AutoMatrixType thr 1 1, nrows = 1, ncols = 1, coeffs = [[1]]\<rparr>"
proof (intro conjI impI)
  assume "length Er1 = n"
  then have "length Er1 = length (derivator n :: 'a jet list)"
    by (simp add: derivator_basis_seed basis_seed_def)
  then show "transformReferenceJacobian3 thr (Manifold n boxplus boxminus) (Single ref1) (Single ref2) Er1 =
      extractJacobi thr n n (boxminus (boxplus ref1 (map2 scalar_plus_jet Er1 (derivator n))) ref2)"
    by (simp add: vector_plus_jets_def)
next
  show "transformReferenceJacobian2 thr (Manifold n boxplus boxminus) (Single ref1) (Single ref2) =
      extractJacobi thr n n (boxminus (boxplus ref1 (derivator n)) ref2)"
    by simp
next
  have d: "(derivator (Suc 0) :: 'b jet list) = [\<lparr>a = 0, v = [1]\<rparr>]"
    by (simp add: derivator_basis_seed basis_seed_def unit_vector_def)
  have "jets_typed (Suc 0) (Suc 0) [\<lparr>a = 0 + x - y, v = [1::'b]\<rparr>]"
    by (simp add: jets_typed_def)
  then show "transformReferenceJacobian2 thr scalar_manifold (Single x) (Single y) =
      Some \<lparr>storage = AutoMatrixType thr 1 1, nrows = 1, ncols = 1, coeffs = [[1]]\<rparr>"
    by (simp add: scalar_manifold_def d extractJacobi_Some jet_minus_scalar_def scalar_plus_jet_def)
qed

theorem transformReferenceJacobian_not_compound_witness:
  "transformReferenceJacobian3 100 scalar_manifold (Single (3::int)) (Single 5) [7] =
     Some \<lparr>storage = Fixed 1 1, nrows = 1, ncols = 1, coeffs = [[1]]\<rparr>
   \<and> transformReferenceJacobian2 100 scalar_manifold (Single (3::int)) (Single 5) =
     Some \<lparr>storage = Fixed 1 1, nrows = 1, ncols = 1, coeffs = [[1]]\<rparr>"
  using transformReferenceJacobian_not_compound
    [of "[7::int]" 1 100 "\<lambda>x d. scalar_plus_jet x (hd d)" "\<lambda>xd y. [jet_minus_scalar xd y]"
        3 5 "3::int" 5]
  by (simp add: scalar_manifold_def derivator_basis_seed basis_seed_def unit_vector_def
      extractJacobi_def jets_typed_def construct_def AutoMatrixType_def dynamicMatrix_def int32_def
      set_row_def jet_minus_scalar_def scalar_plus_jet_def)

subsection \<open>The reference transform of a composite\<close>

text \<open>
  Claim C2. For a CompoundManifold whose sub-component \<open>DOF\<close>s fit its declared \<open>DOF\<close>,
  with references of that type and an \<open>Er1\<close> of \<open>DOF\<close> coefficients, both overloads
  return a \<open>DOF \<times> DOF\<close> matrix. With the offset of the \<open>i\<close>-th visited sub-component
  being the sum of the \<open>DOF\<close>s before it (it starts at \<open>0\<close> and advances by \<open>d\<close>), the
  \<open>d \<times> d\<close> block at \<open>(o, o)\<close> is the result of the same function on the pair of
  sub-components, with the slice \<open>Er1[o : o + d]\<close> in the overload that has \<open>Er1\<close>, and
  the block of two different sub-components is zero.
\<close>

theorem transformReferenceJacobian_block_diagonal:
  fixes Er1 :: "('a::{zero,one,plus}) list"
  assumes "DOF_consistent (CompoundManifold n Ts)" "operators_typed (CompoundManifold n Ts)"
      and "has_type (Parts xs) (CompoundManifold n Ts)"
      and "has_type (Parts ys) (CompoundManifold n Ts)"
      and "length Er1 = n"
  shows "(\<exists>D. transformReferenceJacobian3 thr (CompoundManifold n Ts) (Parts xs) (Parts ys) Er1 = Some D
           \<and> nrows D = n \<and> ncols D = n
           \<and> (\<forall>i<length Ts. \<exists>cur_Er1 J.
                 segment Er1 (offset Ts i) (DOFOf (Ts ! i)) = Some cur_Er1 \<and>
                 transformReferenceJacobian3 thr (Ts ! i) (xs ! i) (ys ! i) cur_Er1 = Some J \<and>
                 block D (offset Ts i) (offset Ts i) (DOFOf (Ts ! i)) (DOFOf (Ts ! i)) = coeffs J)
           \<and> (\<forall>i<length Ts. \<forall>j<length Ts. i \<noteq> j \<longrightarrow>
                 block D (offset Ts i) (offset Ts j) (DOFOf (Ts ! i)) (DOFOf (Ts ! j)) =
                 replicate (DOFOf (Ts ! i)) (replicate (DOFOf (Ts ! j)) 0)))
       \<and> (\<exists>D. transformReferenceJacobian2 thr (CompoundManifold n Ts) (Parts xs) (Parts ys) = Some D
           \<and> nrows D = n \<and> ncols D = n
           \<and> (\<forall>i<length Ts. \<exists>J.
                 transformReferenceJacobian2 thr (Ts ! i) (xs ! i) (ys ! i) = Some J \<and>
                 block D (offset Ts i) (offset Ts i) (DOFOf (Ts ! i)) (DOFOf (Ts ! i)) = coeffs J)
           \<and> (\<forall>i<length Ts. \<forall>j<length Ts. i \<noteq> j \<longrightarrow>
                 block D (offset Ts i) (offset Ts j) (DOFOf (Ts ! i)) (DOFOf (Ts ! j)) =
                 replicate (DOFOf (Ts ! i)) (replicate (DOFOf (Ts ! j)) 0)))
       \<and> (offset Ts 0 = 0 \<and> (\<forall>i<length Ts. offset Ts (Suc i) = offset Ts i + DOFOf (Ts ! i)))"
proof -
  have len: "length xs = length Ts" "length ys = length Ts"
    and tx: "\<And>i. i < length Ts \<Longrightarrow> has_type (xs ! i) (Ts ! i)"
    and ty: "\<And>i. i < length Ts \<Longrightarrow> has_type (ys ! i) (Ts ! i)"
    using assms(3,4) by (simp_all add: list_all2_conv_all_nth)
  have sum: "sum_list (map DOFOf Ts) \<le> n"
    and wf: "\<And>i. i < length Ts \<Longrightarrow> DOF_consistent (Ts ! i) \<and> operators_typed (Ts ! i)"
    using assms(1,2) by (simp_all add: list_all_length)
  have seg: "segment Er1 (offset Ts i) (DOFOf (Ts ! i)) =
               Some (take (DOFOf (Ts ! i)) (drop (offset Ts i) Er1))
             \<and> length (take (DOFOf (Ts ! i)) (drop (offset Ts i) Er1)) = DOFOf (Ts ! i)"
    if "i < length Ts" for i
    using offset_block_le [OF that] sum assms(5) by (simp add: segment_def)
  have sub3: "\<exists>J. transformReferenceJacobian3 thr (Ts ! i) (xs ! i) (ys ! i)
                 (take (DOFOf (Ts ! i)) (drop (offset Ts i) Er1)) = Some J
               \<and> nrows J = DOFOf (Ts ! i) \<and> ncols J = DOFOf (Ts ! i) \<and> well_shaped J"
    if i: "i < length Ts" for i
    using transformReferenceJacobian3_total [of "Ts ! i" "xs ! i" "ys ! i" _ thr]
      wf [OF i] tx [OF i] ty [OF i] seg [OF i] by blast
  have sub2: "\<exists>J. transformReferenceJacobian2 thr (Ts ! i) (xs ! i) (ys ! i) = Some J
               \<and> nrows J = DOFOf (Ts ! i) \<and> ncols J = DOFOf (Ts ! i) \<and> well_shaped J"
    if i: "i < length Ts" for i
    using transformReferenceJacobian2_total [of "Ts ! i" "xs ! i" "ys ! i" thr]
      wf [OF i] tx [OF i] ty [OF i] by blast
  have "\<forall>i<length Ts. \<exists>J. transformReferenceJacobian3 thr (Ts ! i) (xs ! i) (ys ! i)
                 (take (DOFOf (Ts ! i)) (drop (offset Ts i) Er1)) = Some J
               \<and> nrows J = DOFOf (Ts ! i) \<and> ncols J = DOFOf (Ts ! i)"
    using sub3 by blast
  from transformReferenceJacobian3_compound [OF len sum assms(5) this]
  obtain D where D: "transformReferenceJacobian3 thr (CompoundManifold n Ts) (Parts xs) (Parts ys) Er1 = Some D"
      "nrows D = n" "ncols D = n"
    and inb': "\<forall>i<length Ts. \<forall>J.
                 transformReferenceJacobian3 thr (Ts ! i) (xs ! i) (ys ! i)
                   (take (DOFOf (Ts ! i)) (drop (offset Ts i) Er1)) = Some J \<longrightarrow>
                 (\<forall>r<DOFOf (Ts ! i). \<forall>c<DOFOf (Ts ! i).
                    coeffs D ! (offset Ts i + r) ! (offset Ts i + c) = coeffs J ! r ! c)"
    and out: "\<forall>r<n. \<forall>c<n.
                 (\<forall>k<length Ts. \<not> (offset Ts k \<le> r \<and> r < offset Ts k + DOFOf (Ts ! k) \<and>
                                     offset Ts k \<le> c \<and> c < offset Ts k + DOFOf (Ts ! k))) \<longrightarrow>
                 coeffs D ! r ! c = (if r = c then 1 else 0)"
    by (elim exE conjE)
  have inb: "coeffs D ! (offset Ts i + r) ! (offset Ts i + c) = coeffs J ! r ! c"
    if "i < length Ts" "transformReferenceJacobian3 thr (Ts ! i) (xs ! i) (ys ! i)
         (take (DOFOf (Ts ! i)) (drop (offset Ts i) Er1)) = Some J"
       "r < DOFOf (Ts ! i)" "c < DOFOf (Ts ! i)" for i J r c
    using inb' that by blast
  have diag: "\<exists>cur_Er1 J.
                 segment Er1 (offset Ts i) (DOFOf (Ts ! i)) = Some cur_Er1 \<and>
                 transformReferenceJacobian3 thr (Ts ! i) (xs ! i) (ys ! i) cur_Er1 = Some J \<and>
                 block D (offset Ts i) (offset Ts i) (DOFOf (Ts ! i)) (DOFOf (Ts ! i)) = coeffs J"
    if i: "i < length Ts" for i
  proof -
    from sub3 [OF i] obtain J where J: "transformReferenceJacobian3 thr (Ts ! i) (xs ! i) (ys ! i)
                 (take (DOFOf (Ts ! i)) (drop (offset Ts i) Er1)) = Some J"
        "nrows J = DOFOf (Ts ! i)" "ncols J = DOFOf (Ts ! i)" "well_shaped J"
      by blast
    have "block D (offset Ts i) (offset Ts i) (DOFOf (Ts ! i)) (DOFOf (Ts ! i)) = coeffs J"
      using well_shaped_rows [OF J(4)] J(2,3) inb [OF i J(1)] by (intro block_eqI) simp_all
    then show ?thesis using seg [OF i] J(1) by blast
  qed
  have A: "\<exists>D. transformReferenceJacobian3 thr (CompoundManifold n Ts) (Parts xs) (Parts ys) Er1 = Some D
           \<and> nrows D = n \<and> ncols D = n
           \<and> (\<forall>i<length Ts. \<exists>cur_Er1 J.
                 segment Er1 (offset Ts i) (DOFOf (Ts ! i)) = Some cur_Er1 \<and>
                 transformReferenceJacobian3 thr (Ts ! i) (xs ! i) (ys ! i) cur_Er1 = Some J \<and>
                 block D (offset Ts i) (offset Ts i) (DOFOf (Ts ! i)) (DOFOf (Ts ! i)) = coeffs J)
           \<and> (\<forall>i<length Ts. \<forall>j<length Ts. i \<noteq> j \<longrightarrow>
                 block D (offset Ts i) (offset Ts j) (DOFOf (Ts ! i)) (DOFOf (Ts ! j)) =
                 replicate (DOFOf (Ts ! i)) (replicate (DOFOf (Ts ! j)) 0))"
    using D diag blocks_of_entries [OF sum out] by blast
  have "\<forall>i<length Ts. \<exists>J. transformReferenceJacobian2 thr (Ts ! i) (xs ! i) (ys ! i) = Some J
               \<and> nrows J = DOFOf (Ts ! i) \<and> ncols J = DOFOf (Ts ! i)"
    using sub2 by blast
  from transformReferenceJacobian2_compound [OF len sum this]
  obtain D2 where D2: "transformReferenceJacobian2 thr (CompoundManifold n Ts) (Parts xs) (Parts ys) = Some D2"
      "nrows D2 = n" "ncols D2 = n"
    and inb2': "\<forall>i<length Ts. \<forall>J.
                 transformReferenceJacobian2 thr (Ts ! i) (xs ! i) (ys ! i) = Some J \<longrightarrow>
                 (\<forall>r<DOFOf (Ts ! i). \<forall>c<DOFOf (Ts ! i).
                    coeffs D2 ! (offset Ts i + r) ! (offset Ts i + c) = coeffs J ! r ! c)"
    and out2: "\<forall>r<n. \<forall>c<n.
                 (\<forall>k<length Ts. \<not> (offset Ts k \<le> r \<and> r < offset Ts k + DOFOf (Ts ! k) \<and>
                                     offset Ts k \<le> c \<and> c < offset Ts k + DOFOf (Ts ! k))) \<longrightarrow>
                 coeffs D2 ! r ! c = (if r = c then 1 else 0)"
    by (elim exE conjE)
  have inb2: "coeffs D2 ! (offset Ts i + r) ! (offset Ts i + c) = coeffs J ! r ! c"
    if "i < length Ts" "transformReferenceJacobian2 thr (Ts ! i) (xs ! i) (ys ! i) = Some J"
       "r < DOFOf (Ts ! i)" "c < DOFOf (Ts ! i)" for i J r c
    using inb2' that by blast
  have diag2: "\<exists>J. transformReferenceJacobian2 thr (Ts ! i) (xs ! i) (ys ! i) = Some J \<and>
                 block D2 (offset Ts i) (offset Ts i) (DOFOf (Ts ! i)) (DOFOf (Ts ! i)) = coeffs J"
    if i: "i < length Ts" for i
  proof -
    from sub2 [OF i] obtain J where J: "transformReferenceJacobian2 thr (Ts ! i) (xs ! i) (ys ! i) = Some J"
        "nrows J = DOFOf (Ts ! i)" "ncols J = DOFOf (Ts ! i)" "well_shaped J"
      by blast
    have "block D2 (offset Ts i) (offset Ts i) (DOFOf (Ts ! i)) (DOFOf (Ts ! i)) = coeffs J"
      using well_shaped_rows [OF J(4)] J(2,3) inb2 [OF i J(1)] by (intro block_eqI) simp_all
    then show ?thesis using J(1) by blast
  qed
  have B: "\<exists>D. transformReferenceJacobian2 thr (CompoundManifold n Ts) (Parts xs) (Parts ys) = Some D
           \<and> nrows D = n \<and> ncols D = n
           \<and> (\<forall>i<length Ts. \<exists>J.
                 transformReferenceJacobian2 thr (Ts ! i) (xs ! i) (ys ! i) = Some J \<and>
                 block D (offset Ts i) (offset Ts i) (DOFOf (Ts ! i)) (DOFOf (Ts ! i)) = coeffs J)
           \<and> (\<forall>i<length Ts. \<forall>j<length Ts. i \<noteq> j \<longrightarrow>
                 block D (offset Ts i) (offset Ts j) (DOFOf (Ts ! i)) (DOFOf (Ts ! j)) =
                 replicate (DOFOf (Ts ! i)) (replicate (DOFOf (Ts ! j)) 0))"
    using D2 diag2 blocks_of_entries [OF sum out2] by blast
  have C: "offset Ts 0 = 0 \<and> (\<forall>i<length Ts. offset Ts (Suc i) = offset Ts i + DOFOf (Ts ! i))"
    by (simp add: offset_Suc)
  show ?thesis
    by (rule conjI [OF A conjI [OF B C]])
qed

theorem transformReferenceJacobian_block_diagonal_witness:
  "DOF_consistent (CompoundManifold 3 [scalar_manifold, scalar_manifold :: (int, int jet, int) manifold_type])
   \<and> operators_typed (CompoundManifold 3 [scalar_manifold, scalar_manifold :: (int, int jet, int) manifold_type])
   \<and> has_type (Parts [Single 1, Single 2]) (CompoundManifold 3 [scalar_manifold, scalar_manifold :: (int, int jet, int) manifold_type])
   \<and> has_type (Parts [Single 3, Single 4]) (CompoundManifold 3 [scalar_manifold, scalar_manifold :: (int, int jet, int) manifold_type])
   \<and> length [5, 6, 7 :: int] = 3
   \<and> (\<exists>D. transformReferenceJacobian3 100 (CompoundManifold 3 [scalar_manifold, scalar_manifold])
             (Parts [Single (1::int), Single 2]) (Parts [Single 3, Single 4]) [5, 6, 7] = Some D
           \<and> nrows D = 3 \<and> ncols D = 3 \<and> block D 0 1 1 1 = [[0]] \<and> block D 1 0 1 1 = [[0]])"
proof -
  let ?T = "CompoundManifold 3 [scalar_manifold, scalar_manifold :: (int, int jet, int) manifold_type]"
  have h1: "DOF_consistent ?T"
    by (simp add: scalar_manifold_def)
  have h2: "operators_typed ?T"
    by (simp add: operators_typed_scalar_manifold)
  have h3: "has_type (Parts [Single 1, Single 2]) ?T"
    by (simp add: scalar_manifold_def)
  have h4: "has_type (Parts [Single 3, Single 4]) ?T"
    by (simp add: scalar_manifold_def)
  have h5: "length [5, 6, 7 :: int] = 3"
    by simp
  from transformReferenceJacobian_block_diagonal [OF h1 h2 h3 h4 h5, of 100]
  obtain D where D: "transformReferenceJacobian3 100 ?T
             (Parts [Single (1::int), Single 2]) (Parts [Single 3, Single 4]) [5, 6, 7] = Some D"
      "nrows D = 3" "ncols D = 3"
    and off: "\<forall>i<length [scalar_manifold, scalar_manifold :: (int, int jet, int) manifold_type].
              \<forall>j<length [scalar_manifold, scalar_manifold :: (int, int jet, int) manifold_type]. i \<noteq> j \<longrightarrow>
                 block D (offset [scalar_manifold, scalar_manifold :: (int, int jet, int) manifold_type] i)
                         (offset [scalar_manifold, scalar_manifold :: (int, int jet, int) manifold_type] j)
                         (DOFOf ([scalar_manifold, scalar_manifold :: (int, int jet, int) manifold_type] ! i))
                         (DOFOf ([scalar_manifold, scalar_manifold :: (int, int jet, int) manifold_type] ! j)) =
                 replicate (DOFOf ([scalar_manifold, scalar_manifold :: (int, int jet, int) manifold_type] ! i))
                   (replicate (DOFOf ([scalar_manifold, scalar_manifold :: (int, int jet, int) manifold_type] ! j)) 0)"
    by (elim exE conjE)
  have "block D 0 1 1 1 = [[0]]"
    using off [rule_format, of 0 1] by (simp add: offset_def scalar_manifold_def)
  moreover have "block D 1 0 1 1 = [[0]]"
    using off [rule_format, of 1 0] by (simp add: offset_def scalar_manifold_def)
  ultimately show ?thesis
    using h1 h2 h3 h4 D by (intro conjI exI [of _ D]) simp_all
qed

text \<open>
  Claim C10. In both overloads the composite's result starts as the identity and only the
  blocks of the visited sub-components are written: with \<open>s\<close> the sum of their \<open>DOF\<close>s,
  the rows and columns from \<open>s\<close> on hold an identity block and zeros beside it, whatever
  the operators of the sub-components are; a composite with no visited sub-component
  gives the identity.
\<close>

theorem transformReferenceJacobian_unvisited_identity:
  fixes Er1 :: "('a::{zero,one,plus}) list"
  assumes "DOF_consistent (CompoundManifold n Ts)" "operators_typed (CompoundManifold n Ts)"
      and "has_type (Parts xs) (CompoundManifold n Ts)"
      and "has_type (Parts ys) (CompoundManifold n Ts)"
      and "length Er1 = n"
  shows "(\<exists>D. transformReferenceJacobian3 thr (CompoundManifold n Ts) (Parts xs) (Parts ys) Er1 = Some D
           \<and> block D (sum_list (map DOFOf Ts)) (sum_list (map DOFOf Ts))
                   (n - sum_list (map DOFOf Ts)) (n - sum_list (map DOFOf Ts)) =
               coeffs (Identity Dynamic (n - sum_list (map DOFOf Ts)) (n - sum_list (map DOFOf Ts)) :: 'a matrix)
           \<and> block D 0 (sum_list (map DOFOf Ts)) (sum_list (map DOFOf Ts)) (n - sum_list (map DOFOf Ts)) =
               replicate (sum_list (map DOFOf Ts)) (replicate (n - sum_list (map DOFOf Ts)) 0)
           \<and> block D (sum_list (map DOFOf Ts)) 0 (n - sum_list (map DOFOf Ts)) (sum_list (map DOFOf Ts)) =
               replicate (n - sum_list (map DOFOf Ts)) (replicate (sum_list (map DOFOf Ts)) 0))
       \<and> (\<exists>D. transformReferenceJacobian2 thr (CompoundManifold n Ts) (Parts xs) (Parts ys) = Some D
           \<and> block D (sum_list (map DOFOf Ts)) (sum_list (map DOFOf Ts))
                   (n - sum_list (map DOFOf Ts)) (n - sum_list (map DOFOf Ts)) =
               coeffs (Identity Dynamic (n - sum_list (map DOFOf Ts)) (n - sum_list (map DOFOf Ts)) :: 'a matrix)
           \<and> block D 0 (sum_list (map DOFOf Ts)) (sum_list (map DOFOf Ts)) (n - sum_list (map DOFOf Ts)) =
               replicate (sum_list (map DOFOf Ts)) (replicate (n - sum_list (map DOFOf Ts)) 0)
           \<and> block D (sum_list (map DOFOf Ts)) 0 (n - sum_list (map DOFOf Ts)) (sum_list (map DOFOf Ts)) =
               replicate (n - sum_list (map DOFOf Ts)) (replicate (sum_list (map DOFOf Ts)) 0))
       \<and> transformReferenceJacobian3 thr (CompoundManifold n []) (Parts []) (Parts []) Er1 =
           Some (Identity (AutoMatrixType thr n n) n n)
       \<and> transformReferenceJacobian2 thr (CompoundManifold n []) (Parts []) (Parts []) =
           Some (Identity (AutoMatrixType thr n n) n n :: 'a matrix)"
proof -
  have sum: "sum_list (map DOFOf Ts) \<le> n"
    using assms(1) by simp
  from compound_outside3 [OF assms, of thr] tail_of_entries [OF sum]
  have A: "\<exists>D. transformReferenceJacobian3 thr (CompoundManifold n Ts) (Parts xs) (Parts ys) Er1 = Some D
           \<and> block D (sum_list (map DOFOf Ts)) (sum_list (map DOFOf Ts))
                   (n - sum_list (map DOFOf Ts)) (n - sum_list (map DOFOf Ts)) =
               coeffs (Identity Dynamic (n - sum_list (map DOFOf Ts)) (n - sum_list (map DOFOf Ts)) :: 'a matrix)
           \<and> block D 0 (sum_list (map DOFOf Ts)) (sum_list (map DOFOf Ts)) (n - sum_list (map DOFOf Ts)) =
               replicate (sum_list (map DOFOf Ts)) (replicate (n - sum_list (map DOFOf Ts)) 0)
           \<and> block D (sum_list (map DOFOf Ts)) 0 (n - sum_list (map DOFOf Ts)) (sum_list (map DOFOf Ts)) =
               replicate (n - sum_list (map DOFOf Ts)) (replicate (sum_list (map DOFOf Ts)) 0)"
    by (elim exE conjE) (rule exI, erule conjI, blast)
  from compound_outside2 [OF assms(1-4), of thr] tail_of_entries [OF sum]
  have B: "\<exists>D. transformReferenceJacobian2 thr (CompoundManifold n Ts) (Parts xs) (Parts ys) = Some D
           \<and> block D (sum_list (map DOFOf Ts)) (sum_list (map DOFOf Ts))
                   (n - sum_list (map DOFOf Ts)) (n - sum_list (map DOFOf Ts)) =
               coeffs (Identity Dynamic (n - sum_list (map DOFOf Ts)) (n - sum_list (map DOFOf Ts)) :: 'a matrix)
           \<and> block D 0 (sum_list (map DOFOf Ts)) (sum_list (map DOFOf Ts)) (n - sum_list (map DOFOf Ts)) =
               replicate (sum_list (map DOFOf Ts)) (replicate (n - sum_list (map DOFOf Ts)) 0)
           \<and> block D (sum_list (map DOFOf Ts)) 0 (n - sum_list (map DOFOf Ts)) (sum_list (map DOFOf Ts)) =
               replicate (n - sum_list (map DOFOf Ts)) (replicate (sum_list (map DOFOf Ts)) 0)"
    by (elim exE conjE) (rule exI, erule conjI, blast)
  have C: "transformReferenceJacobian3 thr (CompoundManifold n []) (Parts []) (Parts []) Er1 =
           Some (Identity (AutoMatrixType thr n n) n n)"
    by simp
  have E: "transformReferenceJacobian2 thr (CompoundManifold n []) (Parts []) (Parts []) =
           Some (Identity (AutoMatrixType thr n n) n n :: 'a matrix)"
    by simp
  show ?thesis
    by (rule conjI [OF A conjI [OF B conjI [OF C E]]])
qed

theorem transformReferenceJacobian_unvisited_identity_witness:
  "DOF_consistent (CompoundManifold 3 [scalar_manifold, scalar_manifold :: (int, int jet, int) manifold_type])
   \<and> operators_typed (CompoundManifold 3 [scalar_manifold, scalar_manifold :: (int, int jet, int) manifold_type])
   \<and> has_type (Parts [Single 1, Single 2]) (CompoundManifold 3 [scalar_manifold, scalar_manifold :: (int, int jet, int) manifold_type])
   \<and> has_type (Parts [Single 3, Single 4]) (CompoundManifold 3 [scalar_manifold, scalar_manifold :: (int, int jet, int) manifold_type])
   \<and> length [5, 6, 7 :: int] = 3
   \<and> (\<exists>D. transformReferenceJacobian3 100 (CompoundManifold 3 [scalar_manifold, scalar_manifold])
             (Parts [Single (1::int), Single 2]) (Parts [Single 3, Single 4]) [5, 6, 7] = Some D
           \<and> block D 2 2 1 1 = [[1]] \<and> block D 0 2 2 1 = [[0], [0]] \<and> block D 2 0 1 2 = [[0, 0]])"
proof -
  let ?T = "CompoundManifold 3 [scalar_manifold, scalar_manifold :: (int, int jet, int) manifold_type]"
  have h1: "DOF_consistent ?T"
    by (simp add: scalar_manifold_def)
  have h2: "operators_typed ?T"
    by (simp add: operators_typed_scalar_manifold)
  have h3: "has_type (Parts [Single 1, Single 2]) ?T"
    by (simp add: scalar_manifold_def)
  have h4: "has_type (Parts [Single 3, Single 4]) ?T"
    by (simp add: scalar_manifold_def)
  have h5: "length [5, 6, 7 :: int] = 3"
    by simp
  have s: "sum_list (map DOFOf [scalar_manifold, scalar_manifold :: (int, int jet, int) manifold_type]) = 2"
    by (simp add: scalar_manifold_def)
  have i: "coeffs (Identity Dynamic 1 1 :: int matrix) = [[1]]"
    by (simp add: Identity_def)
  have m: "(3::nat) - 2 = 1"
    by simp
  have r: "replicate 2 (replicate 1 (0::int)) = [[0], [0]]" "replicate 1 (replicate 2 (0::int)) = [[0, 0]]"
    by (simp_all add: numeral_2_eq_2)
  from transformReferenceJacobian_unvisited_identity [OF h1 h2 h3 h4 h5, of 100]
  have "\<exists>D. transformReferenceJacobian3 100 ?T
             (Parts [Single (1::int), Single 2]) (Parts [Single 3, Single 4]) [5, 6, 7] = Some D
           \<and> block D 2 2 1 1 = [[1]] \<and> block D 0 2 2 1 = [[0], [0]] \<and> block D 2 0 1 2 = [[0, 0]]"
    unfolding s m i r by (rule conjunct1)
  then show ?thesis
    using h1 h2 h3 h4 by simp
qed

subsection \<open>The same reference twice\<close>

text \<open>
  Claim C3. For every manifold instance \<open>ref\<close>, the overload without \<open>Er1\<close> on \<open>ref\<close> and
  \<open>ref\<close> returns the \<open>DOF \<times> DOF\<close> identity. A manifold is a type whose \<open>-\<close> undoes its
  \<open>+\<close>; what is used of it is the round-trip law to first order at \<open>ref\<close>, in the
  non-composite sub-components, and the consistent \<open>DOF\<close>s of the composites.
\<close>

theorem transformReferenceJacobian_same_reference:
  fixes T :: "('m, 'j, 'a::{zero,one}) manifold_type"
  assumes "DOF_consistent T" "round_trip T x"
  shows "transformReferenceJacobian2 thr T x x =
           Some (Identity (AutoMatrixType thr (DOFOf T) (DOFOf T)) (DOFOf T) (DOFOf T))"
  using assms
proof (induction T arbitrary: x)
  case (Manifold n boxplus boxminus)
  then obtain ref where x: "x = Single ref"
      and typed: "jets_typed n n (boxminus (boxplus ref (derivator n)) ref)"
      and same: "map v (boxminus (boxplus ref (derivator n)) ref) = map v (derivator n)"
    by (cases x) simp_all
  have "extractJacobi thr n n (boxminus (boxplus ref (derivator n)) ref) =
          Some \<lparr>storage = AutoMatrixType thr n n, nrows = n, ncols = n,
                coeffs = map v (boxminus (boxplus ref (derivator n)) ref)\<rparr>"
    by (rule extractJacobi_Some) (simp_all add: typed)
  moreover have "extractJacobi thr n n (derivator n :: 'a jet list) =
          Some \<lparr>storage = AutoMatrixType thr n n, nrows = n, ncols = n,
                coeffs = map v (derivator n :: 'a jet list)\<rparr>"
    by (rule extractJacobi_Some) (simp_all add: jets_typed_derivator)
  ultimately show ?case
    using same extractJacobi_derivator [of thr n, where 'a = 'a] by (simp add: x)
next
  case (CompoundManifold n Ts)
  from CompoundManifold.prems(2) obtain xs where xs: "x = Parts xs" "length xs = length Ts"
      and rt: "\<And>i. i < length Ts \<Longrightarrow> round_trip (Ts ! i) (xs ! i)"
    by (cases x) (auto simp: list_all2_conv_all_nth)
  have sum: "sum_list (map DOFOf Ts) \<le> n"
    using CompoundManifold.prems(1) by simp
  have sub: "transformReferenceJacobian2 thr (Ts ! i) (xs ! i) (xs ! i) =
      Some (Identity (AutoMatrixType thr (DOFOf (Ts ! i)) (DOFOf (Ts ! i))) (DOFOf (Ts ! i)) (DOFOf (Ts ! i)))"
    if i: "i < length Ts" for i
  proof -
    have "Ts ! i \<in> set Ts" "DOF_consistent (Ts ! i)"
      using CompoundManifold.prems(1) i by (simp_all add: list_all_length)
    from CompoundManifold.IH [OF this rt [OF i]] show ?thesis .
  qed
  have "\<forall>i<length Ts. \<exists>J. transformReferenceJacobian2 thr (Ts ! i) (xs ! i) (xs ! i) = Some J
               \<and> nrows J = DOFOf (Ts ! i) \<and> ncols J = DOFOf (Ts ! i)"
    using sub by simp
  from transformReferenceJacobian2_compound [OF xs(2) xs(2) sum this]
  obtain D where D: "transformReferenceJacobian2 thr (CompoundManifold n Ts) (Parts xs) (Parts xs) = Some D"
      "nrows D = n" "ncols D = n" "storage D = AutoMatrixType thr n n" "well_shaped D"
    and inb: "\<forall>i<length Ts. \<forall>J.
                 transformReferenceJacobian2 thr (Ts ! i) (xs ! i) (xs ! i) = Some J \<longrightarrow>
                 (\<forall>r<DOFOf (Ts ! i). \<forall>c<DOFOf (Ts ! i).
                    coeffs D ! (offset Ts i + r) ! (offset Ts i + c) = coeffs J ! r ! c)"
    and out: "\<forall>r<n. \<forall>c<n.
                 (\<forall>k<length Ts. \<not> (offset Ts k \<le> r \<and> r < offset Ts k + DOFOf (Ts ! k) \<and>
                                     offset Ts k \<le> c \<and> c < offset Ts k + DOFOf (Ts ! k))) \<longrightarrow>
                 coeffs D ! r ! c = (if r = c then 1 else 0)"
    by (elim exE conjE)
  have entry: "coeffs D ! r ! c = (if r = c then 1 else 0)" if rc: "r < n" "c < n" for r c
  proof (cases "\<exists>k<length Ts. offset Ts k \<le> r \<and> r < offset Ts k + DOFOf (Ts ! k) \<and>
                               offset Ts k \<le> c \<and> c < offset Ts k + DOFOf (Ts ! k)")
    case True
    then obtain k where k: "k < length Ts" "offset Ts k \<le> r" "r < offset Ts k + DOFOf (Ts ! k)"
        "offset Ts k \<le> c" "c < offset Ts k + DOFOf (Ts ! k)"
      by blast
    have "r - offset Ts k < DOFOf (Ts ! k)" "c - offset Ts k < DOFOf (Ts ! k)"
      using k by simp_all
    from inb [rule_format, OF k(1) sub [OF k(1)] this]
    show ?thesis
      using k by (auto simp: Identity_nth)
  next
    case False
    then show ?thesis using out rc by blast
  qed
  have "D = Identity (AutoMatrixType thr n n) n n"
    using D entry by (intro matrix_eqI [of _ _ n n]) (simp_all add: well_shaped_Identity Identity_nth)
  then show ?case
    using D(1) by (simp add: xs(1))
qed

theorem transformReferenceJacobian_same_reference_witness:
  "DOF_consistent (CompoundManifold 3 [scalar_manifold, scalar_manifold :: (int, int jet, int) manifold_type])
   \<and> round_trip (CompoundManifold 3 [scalar_manifold, scalar_manifold]) (Parts [Single (1::int), Single 2])
   \<and> transformReferenceJacobian2 100 (CompoundManifold 3 [scalar_manifold, scalar_manifold])
        (Parts [Single (1::int), Single 2]) (Parts [Single 1, Single 2]) =
      Some \<lparr>storage = Fixed 3 3, nrows = 3, ncols = 3, coeffs = [[1, 0, 0], [0, 1, 0], [0, 0, 1]]\<rparr>"
proof -
  let ?T = "CompoundManifold 3 [scalar_manifold, scalar_manifold :: (int, int jet, int) manifold_type]"
  have d: "(derivator (Suc 0) :: int jet list) = [\<lparr>a = 0, v = [1]\<rparr>]"
    by (simp add: derivator_basis_seed basis_seed_def unit_vector_def)
  have h1: "DOF_consistent ?T"
    by (simp add: scalar_manifold_def)
  have h2: "round_trip ?T (Parts [Single (1::int), Single 2])"
    by (simp add: scalar_manifold_def d jet_minus_scalar_def scalar_plus_jet_def jets_typed_def)
  have i: "Identity (AutoMatrixType 100 3 3) 3 3 =
           \<lparr>storage = Fixed 3 3, nrows = 3, ncols = 3, coeffs = [[1, 0, 0], [0, 1, 0], [0, 0, 1::int]]\<rparr>"
    by (simp add: Identity_def AutoMatrixType_def dynamicMatrix_def int32_def upt_rec)
  from transformReferenceJacobian_same_reference [OF h1 h2, of 100] h1 h2
  show ?thesis
    by (simp only: DOFOf.simps i)
qed

text \<open>
  The law \<open>(ref + d) - ref = d\<close> at the derivator gives the hypothesis of the theorem.
\<close>

lemma round_trip_law:
  fixes boxplus :: "'m \<Rightarrow> ('a::{zero,one}) jet list \<Rightarrow> 'j"
  assumes "boxminus (boxplus ref (derivator n)) ref = derivator n"
  shows "round_trip (Manifold n boxplus boxminus) (Single ref)"
  using assms by (simp add: jets_typed_derivator)

text \<open>
  The code itself checks nothing of the operators: on the type \<open>doubling_manifold\<close>,
  which does not satisfy the law, the overload without \<open>Er1\<close> returns \<open>[2]\<close> at \<open>ref = 3\<close>.
\<close>

lemma doubling_manifold_not_identity:
  "transformReferenceJacobian2 100 doubling_manifold (Single (3::int)) (Single 3) =
     Some \<lparr>storage = Fixed 1 1, nrows = 1, ncols = 1, coeffs = [[2]]\<rparr>
   \<and> \<not> round_trip doubling_manifold (Single (3::int))"
proof -
  have d: "(derivator (Suc 0) :: int jet list) = [\<lparr>a = 0, v = [1]\<rparr>]"
    by (simp add: derivator_basis_seed basis_seed_def unit_vector_def)
  have "jets_typed (Suc 0) (Suc 0) [\<lparr>a = 0::int, v = [2::int]\<rparr>]"
    by (simp add: jets_typed_def)
  then have "transformReferenceJacobian2 100 doubling_manifold (Single (3::int)) (Single 3) =
     Some \<lparr>storage = Fixed 1 1, nrows = 1, ncols = 1, coeffs = [[2]]\<rparr>"
    by (simp add: doubling_manifold_def d extractJacobi_Some jet_minus_scalar_def
        scalar_plus_jet_def AutoMatrixType_def dynamicMatrix_def int32_def)
  then show ?thesis
    by (simp add: doubling_manifold_def d jet_minus_scalar_def scalar_plus_jet_def)
qed

subsection \<open>The two overloads\<close>

text \<open>
  Claim C4. For every manifold type and every two references, the overload without \<open>Er1\<close>
  returns what the overload with \<open>Er1\<close> returns on the zero tangent vector. The scalar
  type is arbitrary; the one fact of its arithmetic that is used is \<open>0 + 0 = 0\<close>.
\<close>

theorem transformReferenceJacobian_zero_error:
  fixes T :: "('m, 'j, 'a::{zero,one,plus}) manifold_type"
  assumes "(0::'a) + 0 = 0"
  shows "transformReferenceJacobian2 thr T ref1 ref2 =
         transformReferenceJacobian3 thr T ref1 ref2 (replicate (DOFOf T) 0)"
proof (induction T arbitrary: ref1 ref2)
  case (Manifold n boxplus boxminus)
  show ?case
    by (cases ref1; cases ref2) (simp_all add: vector_plus_jets_zero [OF assms])
next
  case (CompoundManifold n Ts)
  show ?case
  proof (cases ref1)
    case (Single r)
    then show ?thesis by simp
  next
    case xs: (Parts xs)
    show ?thesis
    proof (cases ref2)
      case (Single r)
      then show ?thesis using xs by simp
    next
      case ys: (Parts ys)
      show ?thesis
        using CompoundManifold.IH
        by (simp add: xs ys forEachManifoldWithOther_zero [of Ts thr _ n])
    qed
  qed
qed

theorem transformReferenceJacobian_zero_error_witness:
  "(0::int) + 0 = 0 \<and>
   transformReferenceJacobian2 100 (CompoundManifold 2 [scalar_manifold, scalar_manifold])
     (Parts [Single (1::int), Single 2]) (Parts [Single 3, Single 4]) =
   transformReferenceJacobian3 100 (CompoundManifold 2 [scalar_manifold, scalar_manifold])
     (Parts [Single (1::int), Single 2]) (Parts [Single 3, Single 4]) [0, 0]"
proof -
  have h: "(0::int) + 0 = 0" by simp
  from transformReferenceJacobian_zero_error [OF h, of 100
      "CompoundManifold 2 [scalar_manifold, scalar_manifold]"
      "Parts [Single (1::int), Single 2]" "Parts [Single 3, Single 4]"]
  show ?thesis
    by (simp add: numeral_2_eq_2)
qed

subsection \<open>The covariance regularizer\<close>



text \<open>
  Claim C8. Let the eigen-solver keep its contract. Calling \<^verbatim>\<open>assurePositiveDefinite\<close> a
  second time with the same \<open>eps\<close> gives what the first call gave; and when all
  eigenvalues are at least \<open>eps\<close>, the call leaves the matrix as it is.
\<close>

theorem assurePositiveDefinite_idempotent:
  fixes eps :: "'s::linorder"
  assumes "solver_contract solver"
  shows "(assurePositiveDefinite NDEBUG solver ldlt matrix eps \<bind>
            (\<lambda>matrix'. assurePositiveDefinite NDEBUG solver ldlt matrix' eps)) =
         assurePositiveDefinite NDEBUG solver ldlt matrix eps
       \<and> (list_all (\<lambda>x. eps \<le> x) (eigenvalues (solver matrix)) \<longrightarrow>
            assurePositiveDefinite NDEBUG solver ldlt matrix eps = Some matrix)"
proof (intro conjI impI)
  show "(assurePositiveDefinite NDEBUG solver ldlt matrix eps \<bind>
            (\<lambda>matrix'. assurePositiveDefinite NDEBUG solver ldlt matrix' eps)) =
         assurePositiveDefinite NDEBUG solver ldlt matrix eps"
  proof (cases "list_all (\<lambda>x. \<not> x < eps) (eigenvalues (solver matrix))")
    case True
    then show ?thesis
      by (simp add: assurePositiveDefinite_no_clamp)
  next
    case False
    let ?M = "reconstruct (solver matrix)
                (map (\<lambda>x. if x < eps then eps else x) (eigenvalues (solver matrix)))"
    have "list_all (\<lambda>x. \<not> x < eps) (eigenvalues (solver ?M))"
      using rebuilt_eigenvalues [OF assms, of eps matrix] by (auto simp: list_all_iff)
    then have "assurePositiveDefinite NDEBUG solver ldlt ?M eps = Some ?M"
      by (rule assurePositiveDefinite_no_clamp)
    then show ?thesis
      using False by (simp add: assurePositiveDefinite_clamp)
  qed
next
  assume "list_all (\<lambda>x. eps \<le> x) (eigenvalues (solver matrix))"
  then have "list_all (\<lambda>x. \<not> x < eps) (eigenvalues (solver matrix))"
    by (auto simp: list_all_iff)
  then show "assurePositiveDefinite NDEBUG solver ldlt matrix eps = Some matrix"
    by (rule assurePositiveDefinite_no_clamp)
qed

theorem assurePositiveDefinite_idempotent_witness:
  "solver_contract (solver_1x1 :: int \<Rightarrow> (int, int) SelfAdjointEigenSolver)
   \<and> (assurePositiveDefinite False solver_1x1 ldlt_1x1 (- 2 :: int) 1 \<bind>
        (\<lambda>matrix'. assurePositiveDefinite False solver_1x1 ldlt_1x1 matrix' 1)) = Some 1
   \<and> assurePositiveDefinite False solver_1x1 ldlt_1x1 (- 2 :: int) 1 = Some 1
   \<and> list_all (\<lambda>x. (1::int) \<le> x) (eigenvalues (solver_1x1 (3::int)))
   \<and> assurePositiveDefinite False solver_1x1 ldlt_1x1 (3::int) 1 = Some 3"
proof -
  have v: "assurePositiveDefinite False solver_1x1 ldlt_1x1 (- 2 :: int) 1 = Some 1"
    by (simp add: assurePositiveDefinite_def clamp_loop_def solver_1x1_def ldlt_1x1_def
        isPositiveDefinite_def isPositive_def)
  have h: "list_all (\<lambda>x. (1::int) \<le> x) (eigenvalues (solver_1x1 (3::int)))"
    by (simp add: solver_1x1_def)
  from assurePositiveDefinite_idempotent [OF solver_contract_1x1, of False ldlt_1x1 "- 2 :: int" 1]
       assurePositiveDefinite_idempotent [OF solver_contract_1x1, of False ldlt_1x1 "3 :: int" 1]
  show ?thesis
    using v h solver_contract_1x1 by simp
qed

text \<open>
  Claim C9. The matrix with the one coefficient \<open>0\<close> is not positive definite, and
  \<^verbatim>\<open>isPositiveDefinite\<close> returns true on it: the decomposition succeeds and
  \<^verbatim>\<open>isPositive()\<close> is true of a semidefinite matrix. On a matrix with one coefficient \<open>m\<close>
  the function returns true exactly when \<open>0 \<le> m\<close>.
\<close>

theorem isPositiveDefinite_zero_matrix:
  fixes m :: "'s::{zero,linorder}"
  shows "isPositiveDefinite ldlt_1x1 (0::'s) = True
       \<and> isPositiveDefinite ldlt_1x1 m = (0 \<le> m)"
  by (auto simp: isPositiveDefinite_def ldlt_1x1_def isPositive_def Let_def)

subsection \<open>Further properties\<close>

text \<open>
  When the result type is dynamic or the vector has as many elements as each element has
  derivative components, \<^verbatim>\<open>extractJacobi\<close> returns the \<open>LDOF \<times> RDOF\<close> matrix whose row
  \<open>j\<close> is the derivative vector of element \<open>j\<close>.
\<close>

theorem extractJacobi_rows_are_derivatives:
  assumes "jets_typed LDOF RDOF res" "dynamicMatrix thr LDOF RDOF \<or> LDOF = RDOF"
  shows "\<exists>jacobi. extractJacobi thr LDOF RDOF res = Some jacobi
           \<and> nrows jacobi = LDOF \<and> ncols jacobi = RDOF
           \<and> coeffs jacobi = map v res"
  using extractJacobi_Some [OF assms] by simp

theorem extractJacobi_rows_are_derivatives_witness:
  "jets_typed 2 3 [\<lparr>a = 0, v = [1, 2, 3]\<rparr>, \<lparr>a = 0, v = [4, 5, 6 :: int]\<rparr>]
   \<and> dynamicMatrix 5 2 3
   \<and> (\<exists>jacobi. extractJacobi 5 2 3 [\<lparr>a = 0, v = [1, 2, 3]\<rparr>, \<lparr>a = 0, v = [4, 5, 6 :: int]\<rparr>] = Some jacobi
           \<and> nrows jacobi = 2 \<and> ncols jacobi = 3 \<and> coeffs jacobi = [[1, 2, 3], [4, 5, 6]])"
proof -
  have h1: "jets_typed 2 3 [\<lparr>a = 0, v = [1, 2, 3]\<rparr>, \<lparr>a = 0, v = [4, 5, 6 :: int]\<rparr>]"
    by (simp add: jets_typed_def)
  have h2: "dynamicMatrix 5 2 3 \<or> (2::nat) = 3"
    by (simp add: dynamicMatrix_def int32_def)
  from extractJacobi_rows_are_derivatives [OF h1 h2] h1 h2 show ?thesis
    by simp
qed

end
